theory Spec2Isabelle
  imports Complex_Main "HOL-Library.AList"
begin

section \<open>Data model of lighting.py\<close>

text \<open>
  Coordinates are Python numbers; they are modelled as real numbers, so that tuple equality
  is equality of pairs and arithmetic is exact. An absent wall id (Python's None) is the
  value None of an option.
\<close>

type_synonym point = "real \<times> real"

datatype py_error = IndexError | KeyError | TypeError | ZeroDivisionError

text \<open>
  A ray is a Python tuple: the ray caster builds 4-tuples (origin, target, begins, ends), the
  intersection resolver appends 2-tuples (origin, intersection). Tuples of different length
  are never equal, which the two constructors preserve.
\<close>

datatype ray = Ray2 point point | Ray4 point point "nat option" "nat option"

fun ray_a :: "ray \<Rightarrow> point" where
  "ray_a (Ray2 p q) = p"
| "ray_a (Ray4 p q r3 r4) = p"

fun ray_b :: "ray \<Rightarrow> point" where
  "ray_b (Ray2 p q) = q"
| "ray_b (Ray4 p q r3 r4) = q"

text \<open>The ids that update_light reads as ray[2] and ray[3] when len(ray) == 4, None otherwise.\<close>

fun ray_r3 :: "ray \<Rightarrow> nat option" where
  "ray_r3 (Ray2 p q) = None"
| "ray_r3 (Ray4 p q r3 r4) = r3"

fun ray_r4 :: "ray \<Rightarrow> nat option" where
  "ray_r4 (Ray2 p q) = None"
| "ray_r4 (Ray4 p q r3 r4) = r4"

record endpoint =
  endpoint_id :: nat
  position :: point
  begins :: "nat option"
  ends :: "nat option"

definition Endpoint :: "nat \<Rightarrow> real \<Rightarrow> real \<Rightarrow> endpoint" where
  "Endpoint i x y = \<lparr>endpoint_id = i, position = (x, y), begins = None, ends = None\<rparr>"

record wall =
  wall_id :: nat
  wall_a :: point
  wall_b :: point

definition Wall :: "nat \<Rightarrow> point \<Rightarrow> point \<Rightarrow> wall" where
  "Wall i p q = \<lparr>wall_id = i, wall_a = p, wall_b = q\<rparr>"

text \<open>The attribute line of a Wall is the LineString of its two ends.\<close>

definition wall_line :: "wall \<Rightarrow> point \<times> point" where
  "wall_line w = (wall_a w, wall_b w)"

text \<open>
  Modelled from the spec: new_id of module main is not under src/. The spec describes it as
  a global incrementing id counter per class; the counter is passed explicitly and the
  function returns the fresh id together with the new counter.
\<close>

definition new_id :: "nat \<Rightarrow> nat \<times> nat" where
  "new_id count = (count + 1, count + 1)"

text \<open>
  The fields of a Light that the geometry uses. The colour, the debug flag, the direction
  and the containers light_triangles and edges are never read by the methods below.
\<close>

record light =
  light_x :: real
  light_y :: real
  light_h :: real
  power :: real
  arc_angle :: real
  obstacles :: "point list list"
  light_polygon :: "point list"
  endpoints :: "endpoint list"
  walls :: "(nat \<times> wall) list"
  rays :: "ray list"

section \<open>Wall Builder: Light.find\_walls\<close>

text \<open>
  The edges of one obstacle: one per consecutive pair of points, then the closing edge
  (points[-1], points[0]), which raises IndexError on an empty point list.
\<close>

definition obstacle_walls :: "point list \<Rightarrow> py_error + (point \<times> point) list" where
  "obstacle_walls points =
     (let count = int (length points) - 1;
          edges = map (\<lambda>i. (points ! i, points ! (i + 1))) [0..<nat count]
      in if points = [] then Inl IndexError
         else Inr (edges @ [(last points, hd points)]))"

fun collect_walls ::
  "point list list \<Rightarrow> (point \<times> point) list \<Rightarrow> py_error + (point \<times> point) list" where
  "collect_walls [] ws = Inr ws"
| "collect_walls (obstacle # rest) ws =
     (case obstacle_walls obstacle of
        Inl e \<Rightarrow> Inl e
      | Inr es \<Rightarrow> collect_walls rest (ws @ es))"

fun make_walls :: "nat \<Rightarrow> (point \<times> point) list \<Rightarrow> wall list" where
  "make_walls count [] = []"
| "make_walls count (w # ws) =
     (case new_id count of (i, count') \<Rightarrow> Wall i (fst w) (snd w) # make_walls count' ws)"

text \<open>The four screen borders, in the order in which find_walls lists them.\<close>

definition borders :: "real \<Rightarrow> real \<Rightarrow> (point \<times> point) list" where
  "borders SCREEN_H SCREEN_W =
     [((SCREEN_H, 0), (SCREEN_H, SCREEN_W)),
      ((SCREEN_H, SCREEN_W), (0, SCREEN_W)),
      ((0, SCREEN_W), (0, 0)),
      ((0, 0), (SCREEN_H, 0))]"

section \<open>Endpoint Index: Light.find\_endpoints\<close>

text \<open>First pass: one Endpoint for each ending that is not yet in the list visited.\<close>

fun visit_endings ::
  "point list \<Rightarrow> endpoint list \<times> point list \<times> nat \<Rightarrow> endpoint list \<times> point list \<times> nat" where
  "visit_endings [] st = st"
| "visit_endings (ending # rest) (eps, visited, count) =
     (if ending \<in> set visited then visit_endings rest (eps, visited, count)
      else (case new_id count of (i, count') \<Rightarrow>
              visit_endings rest
                (eps @ [Endpoint i (fst ending) (snd ending)], visited @ [ending], count')))"

definition wall_endings :: "wall list \<Rightarrow> point list" where
  "wall_endings ws = concat (map (\<lambda>w. [wall_a w, wall_b w]) ws)"

text \<open>Second pass: the if / elif of the inner loop, for one wall and one endpoint.\<close>

definition tag_endpoint :: "wall \<Rightarrow> endpoint \<Rightarrow> endpoint" where
  "tag_endpoint w e =
     (if position e = wall_a w then e\<lparr>begins := Some (wall_id w)\<rparr>
      else if position e = wall_b w then e\<lparr>ends := Some (wall_id w)\<rparr>
      else e)"

fun tag_endpoints :: "wall list \<Rightarrow> endpoint list \<Rightarrow> endpoint list" where
  "tag_endpoints [] eps = eps"
| "tag_endpoints (w # ws) eps = tag_endpoints ws (map (tag_endpoint w) eps)"

definition find_endpoints :: "nat \<Rightarrow> wall list \<Rightarrow> endpoint list" where
  "find_endpoints count ws =
     (case visit_endings (wall_endings ws) ([], [], count) of
        (eps, visited, count') \<Rightarrow> tag_endpoints ws eps)"

text \<open>
  The dict comprehension {wall.id: wall for wall in walls}: a Python dict keeps insertion
  order and a repeated key overwrites the value in place, which is the update of an
  association list.
\<close>

definition walls_dict :: "wall list \<Rightarrow> (nat \<times> wall) list" where
  "walls_dict ws = fold (\<lambda>w d. AList.update (wall_id w) w d) ws []"

text \<open>
  The list of Wall objects that find_walls builds, before it is stored as a dict.
\<close>

definition build_walls ::
  "real \<Rightarrow> real \<Rightarrow> nat \<Rightarrow> point list list \<Rightarrow> py_error + wall list" where
  "build_walls SCREEN_H SCREEN_W wall_count obs =
     (case collect_walls obs (borders SCREEN_H SCREEN_W) of
        Inl e \<Rightarrow> Inl e
      | Inr ws \<Rightarrow> Inr (make_walls wall_count ws))"

text \<open>
  find_walls on a Light: SCREEN_H and SCREEN_W are constants of module main, which is not
  under src/, and are parameters here, as are the current values of the id counters of the
  classes Wall and Endpoint.
\<close>

definition find_walls ::
  "real \<Rightarrow> real \<Rightarrow> nat \<Rightarrow> nat \<Rightarrow> light \<Rightarrow> py_error + light" where
  "find_walls SCREEN_H SCREEN_W wall_count endpoint_count l =
     (case build_walls SCREEN_H SCREEN_W wall_count (obstacles l) of
        Inl e \<Rightarrow> Inl e
      | Inr ws \<Rightarrow>
          Inr (l\<lparr>endpoints := find_endpoints endpoint_count ws, walls := walls_dict ws\<rparr>))"

text \<open>The constructor of Light: the fields are set and find_walls is called.\<close>

definition Light ::
  "real \<Rightarrow> real \<Rightarrow> nat \<Rightarrow> nat \<Rightarrow> real \<Rightarrow> real \<Rightarrow> real \<Rightarrow> point list list \<Rightarrow> real \<Rightarrow> real
    \<Rightarrow> py_error + light" where
  "Light SCREEN_H SCREEN_W wall_count endpoint_count x y h obs pw arc =
     find_walls SCREEN_H SCREEN_W wall_count endpoint_count
       \<lparr>light_x = x, light_y = y, light_h = h, power = pw, arc_angle = arc,
        obstacles = obs, light_polygon = [], endpoints = [], walls = [], rays = []\<rparr>"

text \<open>A Light before find_walls has run, as the constructor sets its fields.\<close>

definition new_light :: "real \<Rightarrow> real \<Rightarrow> real \<Rightarrow> point list list \<Rightarrow> light" where
  "new_light x y pw obs =
     \<lparr>light_x = x, light_y = y, light_h = 0, power = pw, arc_angle = 360,
      obstacles = obs, light_polygon = [], endpoints = [], walls = [], rays = []\<rparr>"

section \<open>Geometry primitives\<close>

text \<open>
  The functions that lighting.py imports from module geometry are not under src/. They are
  parameters of the model: every theorem below that mentions a geometry holds for all
  implementations of these four functions.
\<close>

datatype Quadrant = UL | UR | LL | LR

record geometry =
  distance_2d :: "point \<Rightarrow> point \<Rightarrow> real"
  calculate_angle :: "point \<Rightarrow> point \<Rightarrow> real"
  move_along_vector :: "point \<Rightarrow> real \<Rightarrow> real \<Rightarrow> point"
  quadrant :: "point \<Rightarrow> point \<Rightarrow> Quadrant"

text \<open>The static methods cross, cross_product, subtract and get_direction of Light.\<close>

definition cross :: "point \<Rightarrow> point \<Rightarrow> real" where
  "cross a b = fst a * snd b - snd a * fst b"

definition cross_product :: "point \<Rightarrow> point \<Rightarrow> real" where
  "cross_product p1 p2 = fst p1 * snd p2 - fst p2 * snd p1"

definition subtract :: "point \<Rightarrow> point \<Rightarrow> point" where
  "subtract p1 p2 = (fst p1 - fst p2, snd p1 - snd p2)"

definition get_direction :: "point \<Rightarrow> point \<Rightarrow> point \<Rightarrow> real" where
  "get_direction p1 p2 p3 = cross_product (subtract p3 p1) (subtract p2 p1)"

text \<open>
  The methods on_segment and intersect of Light, which update_light does not call: the
  segments p1 p2 and p3 p4 intersect when they cross strictly or when an end of one lies on
  the other.
\<close>

definition on_segment :: "point \<Rightarrow> point \<Rightarrow> point \<Rightarrow> bool" where
  "on_segment p1 p2 p =
     (min (fst p1) (fst p2) \<le> fst p \<and> fst p \<le> max (fst p1) (fst p2)
      \<and> min (snd p1) (snd p2) \<le> snd p \<and> snd p \<le> max (snd p1) (snd p2))"

definition intersect :: "point \<Rightarrow> point \<Rightarrow> point \<Rightarrow> point \<Rightarrow> bool" where
  "intersect p1 p2 p3 p4 =
     (let d1 = get_direction p3 p4 p1;
          d2 = get_direction p3 p4 p2;
          d3 = get_direction p1 p2 p3;
          d4 = get_direction p1 p2 p4
      in if ((d1 > 0 \<and> 0 > d2) \<or> (d1 < 0 \<and> 0 < d2)) \<and> ((d3 > 0 \<and> 0 > d4) \<or> (d3 < 0 \<and> 0 < d4))
         then True
         else if d1 = 0 \<and> on_segment p3 p4 p1 then True
         else if d2 = 0 \<and> on_segment p3 p4 p2 then True
         else if d3 = 0 \<and> on_segment p1 p2 p3 then True
         else if d4 = 0 \<and> on_segment p1 p2 p4 then True
         else False)"

text \<open>
  Modelled from the spec: LineString.crosses belongs to the shapely library and is not under
  src/. The spec asks for a strict crossing, not mere touching: the two segments meet in a
  single point that is interior to both. That is the first, strict clause of Light.intersect
  (each segment has its two ends strictly on opposite sides of the other), without the
  clauses of intersect that accept touching.
\<close>

definition crosses :: "point \<times> point \<Rightarrow> point \<times> point \<Rightarrow> bool" where
  "crosses line1 line2 =
     (let p1 = fst line1; p2 = snd line1; p3 = fst line2; p4 = snd line2;
          d1 = get_direction p3 p4 p1;
          d2 = get_direction p3 p4 p2;
          d3 = get_direction p1 p2 p3;
          d4 = get_direction p1 p2 p4
      in ((d1 > 0 \<and> 0 > d2) \<or> (d1 < 0 \<and> 0 < d2)) \<and> ((d3 > 0 \<and> 0 > d4) \<or> (d3 < 0 \<and> 0 < d4)))"

text \<open>
  Modelled from the spec: the centroid of a Wall is the centroid of its LineString (shapely,
  not under src/); the spec calls it a derived centroid, which for a segment is its midpoint.
\<close>

definition wall_centroid :: "wall \<Rightarrow> point" where
  "wall_centroid w =
     ((fst (wall_a w) + fst (wall_b w)) / 2, (snd (wall_a w) + snd (wall_b w)) / 2)"

text \<open>Light.get_intersection; the division raises ZeroDivisionError on a zero denominator.\<close>

definition get_intersection :: "point \<Rightarrow> point \<Rightarrow> point \<Rightarrow> point \<Rightarrow> py_error + point" where
  "get_intersection p1 p2 p3 p4 =
     (let x_0 = snd p1 - snd p3;
          x_1 = snd p4 - snd p3;
          x_2 = fst p1 - fst p3;
          x_3 = fst p2 - fst p1;
          x_4 = snd p2 - snd p1;
          x_5 = fst p4 - fst p3
      in if x_1 * x_3 - x_5 * x_4 = 0 then Inl ZeroDivisionError
         else (let s = (x_5 * x_0 - x_1 * x_2) / (x_1 * x_3 - x_5 * x_4)
               in Inr (fst p1 + s * x_3, snd p1 + s * x_4)))"

section \<open>Ray Caster: Light.cast\_rays\<close>

text \<open>A subscript walls[k] of the wall dict; the key None is never present.\<close>

definition lookup_wall :: "(nat \<times> wall) list \<Rightarrow> nat option \<Rightarrow> py_error + wall" where
  "lookup_wall ws k =
     (case k of
        None \<Rightarrow> Inl KeyError
      | Some i \<Rightarrow> (case map_of ws i of None \<Rightarrow> Inl KeyError | Some w \<Rightarrow> Inr w))"

text \<open>
  The test edge is None or edge == begins or distance < edge_distance, evaluated left to
  right; comparing a number with None raises TypeError.
\<close>

definition not_blocked :: "nat option \<Rightarrow> real option \<Rightarrow> nat option \<Rightarrow> real \<Rightarrow> py_error + bool" where
  "not_blocked edge edge_distance bg d =
     (if edge = None then Inr True
      else if edge = bg then Inr True
      else (case edge_distance of None \<Rightarrow> Inl TypeError | Some ed \<Rightarrow> Inr (d < ed)))"

text \<open>
  The choice of the offset rays by quadrant. In the branch for UL the source assigns
  offset_ray_b twice and never offset_ray_a; the model keeps that.
\<close>

definition offset_rays ::
  "Quadrant \<Rightarrow> real \<Rightarrow> real \<Rightarrow> real \<Rightarrow> point \<Rightarrow> point \<Rightarrow> point
    \<Rightarrow> (point \<times> point) option \<times> (point \<times> point) option" where
  "offset_rays q angle next_edge_end this_edge_begin origin end_a end_b =
     (case q of
        UL \<Rightarrow>
          (let offset_ray_b = (if next_edge_end > angle then Some (origin, end_a) else None);
               offset_ray_b = (if this_edge_begin < angle then Some (origin, end_b)
                               else offset_ray_b)
           in (None, offset_ray_b))
      | UR \<Rightarrow>
          (if next_edge_end > angle then Some (origin, end_a) else None,
           if this_edge_begin < angle then Some (origin, end_b) else None)
      | LL \<Rightarrow>
          (if next_edge_end > angle then Some (origin, end_a) else None,
           if this_edge_begin < angle then Some (origin, end_b) else None)
      | LR \<Rightarrow>
          (if this_edge_begin > angle then Some (origin, end_a) else None,
           if next_edge_end < angle then Some (origin, end_b) else None))"

definition append_offset :: "ray list \<Rightarrow> (point \<times> point) option \<Rightarrow> nat option \<Rightarrow> nat option \<Rightarrow> ray list" where
  "append_offset rs offset_ray bg en =
     (case offset_ray of None \<Rightarrow> rs | Some pq \<Rightarrow> rs @ [Ray4 (fst pq) (snd pq) bg en])"

text \<open>
  The last statement of the loop body: the 2-tuple (origin, (0.0, 0.0)) is looked up in the
  list of rays, and the 4-tuple (origin, (0.0, 0.0), None, None) is appended when absent.
\<close>

definition append_workaround :: "point \<Rightarrow> ray list \<Rightarrow> ray list" where
  "append_workaround origin rs =
     (if Ray2 origin (0, 0) \<notin> set rs then rs @ [Ray4 origin (0, 0) None None] else rs)"

text \<open>
  One pass of the loop body for an endpoint; the state is the list rays and the variables
  edge and edge_distance.
\<close>

definition cast_endpoint ::
  "geometry \<Rightarrow> (nat \<times> wall) list \<Rightarrow> point \<Rightarrow> real \<Rightarrow> endpoint
    \<Rightarrow> ray list \<times> nat option \<times> real option
    \<Rightarrow> py_error + ray list \<times> nat option \<times> real option" where
  "cast_endpoint g ws origin max_range e st =
     (case st of (rs, edge, edge_distance) \<Rightarrow>
      if distance_2d g origin (position e) > max_range then Inr (rs, edge, edge_distance)
      else
        (let angle = calculate_angle g origin (position e);
             ray = Ray4 origin (position e) (begins e) (ends e)
         in case not_blocked edge edge_distance (begins e) (distance_2d g (position e) origin) of
              Inl err \<Rightarrow> Inl err
            | Inr False \<Rightarrow> Inr (rs, edge, edge_distance)
            | Inr True \<Rightarrow>
               (case lookup_wall ws (ends e) of
                  Inl err \<Rightarrow> Inl err
                | Inr we \<Rightarrow>
                   (let first_distance = distance_2d g (position e) origin;
                        second_vertex = wall_a we;
                        edge' = (if calculate_angle g origin second_vertex > angle
                                 then ends e else None);
                        edge_distance' =
                          (if calculate_angle g origin second_vertex > angle
                           then Some (max first_distance (distance_2d g second_vertex origin))
                           else edge_distance);
                        rs1 = rs @ [ray];
                        end_a = move_along_vector g origin max_range (- angle + 1 / 10000);
                        end_b = move_along_vector g origin max_range (- angle - 1 / 10000)
                    in case lookup_wall ws (begins e) of
                         Inl err \<Rightarrow> Inl err
                       | Inr wb \<Rightarrow>
                          (let next_edge_end = calculate_angle g origin (wall_b wb);
                               this_edge_begin = calculate_angle g origin (wall_a we);
                               offs = offset_rays (quadrant g (position e) origin) angle
                                        next_edge_end this_edge_begin origin end_a end_b;
                               rs2 = append_offset rs1 (fst offs) (begins e) (ends e);
                               rs3 = append_offset rs2 (snd offs) (begins e) (ends e)
                           in Inr (append_workaround origin rs3, edge', edge_distance'))))))"

fun cast_rays_loop ::
  "geometry \<Rightarrow> (nat \<times> wall) list \<Rightarrow> point \<Rightarrow> real \<Rightarrow> endpoint list
    \<Rightarrow> ray list \<times> nat option \<times> real option
    \<Rightarrow> py_error + ray list \<times> nat option \<times> real option" where
  "cast_rays_loop g ws origin max_range [] st = Inr st"
| "cast_rays_loop g ws origin max_range (e # es) st =
     (case cast_endpoint g ws origin max_range e st of
        Inl err \<Rightarrow> Inl err
      | Inr st' \<Rightarrow> cast_rays_loop g ws origin max_range es st')"

definition cast_rays ::
  "geometry \<Rightarrow> (nat \<times> wall) list \<Rightarrow> endpoint list \<Rightarrow> point \<Rightarrow> real \<Rightarrow> py_error + ray list" where
  "cast_rays g ws eps origin max_range =
     (case cast_rays_loop g ws origin max_range eps ([], None, None) of
        Inl err \<Rightarrow> Inl err
      | Inr st \<Rightarrow> Inr (fst st))"

section \<open>Intersection Resolver and Polygon Assembler: Light.update\_light\<close>

text \<open>
  The inner loop over the walls: the first wall whose id is not in (r3, r4) and whose line
  the ray's line crosses.
\<close>

definition collides :: "ray \<Rightarrow> wall \<Rightarrow> bool" where
  "collides ray w =
     (Some (wall_id w) \<noteq> ray_r3 ray \<and> Some (wall_id w) \<noteq> ray_r4 ray
      \<and> crosses (ray_a ray, ray_b ray) (wall_line w))"

definition colliding_wall :: "wall list \<Rightarrow> ray \<Rightarrow> wall option" where
  "colliding_wall ws ray = find (collides ray) ws"

section \<open>Crossing segments and their intersection point\<close>

text \<open>The point of the segment from p to q at parameter s.\<close>

definition along :: "point \<Rightarrow> point \<Rightarrow> real \<Rightarrow> point" where
  "along p q s = (fst p + s * (fst q - fst p), snd p + s * (snd q - snd p))"

lemma get_direction_expand:
  "get_direction p1 p2 p3 =
     (fst p3 - fst p1) * (snd p2 - snd p1) - (fst p2 - fst p1) * (snd p3 - snd p1)"
  by (simp add: get_direction_def cross_product_def subtract_def)

lemma get_direction_along:
  "get_direction c d (along p q s) = (1 - s) * get_direction c d p + s * get_direction c d q"
  by (simp add: get_direction_expand along_def algebra_simps)

lemma get_direction_from_along:
  "get_direction p (along p q s) c = s * get_direction p q c"
  by (simp add: get_direction_expand along_def algebra_simps)

lemma denominator_directions:
  "(snd p4 - snd p3) * (fst p2 - fst p1) - (fst p4 - fst p3) * (snd p2 - snd p1)
     = get_direction p3 p4 p2 - get_direction p3 p4 p1"
  by (simp add: get_direction_expand algebra_simps)

lemma numerator_direction:
  "(fst p4 - fst p3) * (snd p1 - snd p3) - (snd p4 - snd p3) * (fst p1 - fst p3)
     = - get_direction p3 p4 p1"
  by (simp add: get_direction_expand algebra_simps)

lemma get_intersection_directions:
  "get_intersection p1 p2 p3 p4 =
     (if get_direction p3 p4 p2 - get_direction p3 p4 p1 = 0 then Inl ZeroDivisionError
      else Inr (along p1 p2
                 (- get_direction p3 p4 p1 / (get_direction p3 p4 p2 - get_direction p3 p4 p1))))"
  unfolding get_intersection_def Let_def along_def
  by (simp only: denominator_directions numerator_direction)

lemma crosses_directions:
  "crosses (p1, p2) (p3, p4) \<longleftrightarrow>
     ((get_direction p3 p4 p1 > 0 \<and> 0 > get_direction p3 p4 p2)
        \<or> (get_direction p3 p4 p1 < 0 \<and> 0 < get_direction p3 p4 p2))
     \<and> ((get_direction p1 p2 p3 > 0 \<and> 0 > get_direction p1 p2 p4)
        \<or> (get_direction p1 p2 p3 < 0 \<and> 0 < get_direction p1 p2 p4))"
  by (simp add: crosses_def Let_def)

lemma crosses_intersect: "crosses (p1, p2) (p3, p4) \<Longrightarrow> intersect p1 p2 p3 p4"
  by (simp add: crosses_def intersect_def Let_def)

lemma crosses_denominator:
  "crosses (p1, p2) (p3, p4) \<Longrightarrow> get_direction p3 p4 p2 - get_direction p3 p4 p1 \<noteq> 0"
  by (auto simp: crosses_directions)

lemma crossing_parameter:
  assumes "crosses (p1, p2) (p3, p4)"
  defines "s \<equiv> - get_direction p3 p4 p1 / (get_direction p3 p4 p2 - get_direction p3 p4 p1)"
  shows "0 < s" and "s < 1" and "get_intersection p1 p2 p3 p4 = Inr (along p1 p2 s)"
    and "get_direction p3 p4 (along p1 p2 s) = 0"
proof -
  let ?d1 = "get_direction p3 p4 p1" and ?d2 = "get_direction p3 p4 p2"
  from assms(1) have opp: "(?d1 > 0 \<and> 0 > ?d2) \<or> (?d1 < 0 \<and> 0 < ?d2)"
    by (simp add: crosses_directions)
  then have ne: "?d2 - ?d1 \<noteq> 0" by auto
  from opp show "0 < s" unfolding s_def
    by (auto simp: divide_less_0_iff)
  from opp show "s < 1" unfolding s_def
  proof
    assume "?d1 > 0 \<and> 0 > ?d2"
    then have "?d2 - ?d1 < 0" by simp
    from neg_divide_less_eq [OF this, of "- ?d1" 1] \<open>?d1 > 0 \<and> 0 > ?d2\<close>
    show "- ?d1 / (?d2 - ?d1) < 1" by simp
  next
    assume "?d1 < 0 \<and> 0 < ?d2"
    then have "0 < ?d2 - ?d1" by simp
    from pos_divide_less_eq [OF this, of "- ?d1" 1] \<open>?d1 < 0 \<and> 0 < ?d2\<close>
    show "- ?d1 / (?d2 - ?d1) < 1" by simp
  qed
  from ne show "get_intersection p1 p2 p3 p4 = Inr (along p1 p2 s)"
    by (simp add: get_intersection_directions s_def)
  have "(1 - s) * ?d1 + s * ?d2 = ?d1 + s * (?d2 - ?d1)" by (simp add: algebra_simps)
  also have "\<dots> = 0" using ne by (simp add: s_def)
  finally show "get_direction p3 p4 (along p1 p2 s) = 0"
    by (simp add: get_direction_along)
qed

lemma crosses_shorter:
  assumes s: "0 < s" "s < 1" and c: "crosses (p, along p q s) (c, d)"
  shows "crosses (p, q) (c, d)"
proof -
  let ?e1 = "get_direction c d p" and ?e2 = "get_direction c d q"
  let ?e3 = "get_direction p q c" and ?e4 = "get_direction p q d"
  from c have a: "(?e1 > 0 \<and> 0 > (1 - s) * ?e1 + s * ?e2) \<or> (?e1 < 0 \<and> 0 < (1 - s) * ?e1 + s * ?e2)"
    and b: "(s * ?e3 > 0 \<and> 0 > s * ?e4) \<or> (s * ?e3 < 0 \<and> 0 < s * ?e4)"
    by (simp_all add: crosses_directions get_direction_along get_direction_from_along)
  from b s have b': "(?e3 > 0 \<and> 0 > ?e4) \<or> (?e3 < 0 \<and> 0 < ?e4)"
    by (auto simp: zero_less_mult_iff mult_less_0_iff)
  have a': "(?e1 > 0 \<and> 0 > ?e2) \<or> (?e1 < 0 \<and> 0 < ?e2)"
  proof -
    from a consider (pos) "?e1 > 0" "0 > (1 - s) * ?e1 + s * ?e2"
      | (neg) "?e1 < 0" "0 < (1 - s) * ?e1 + s * ?e2" by blast
    then show ?thesis
    proof cases
      case pos
      from pos(1) s have "0 < (1 - s) * ?e1" by simp
      with pos(2) have "s * ?e2 < 0" by linarith
      with s have "?e2 < 0" by (simp add: mult_less_0_iff)
      with pos(1) show ?thesis by simp
    next
      case neg
      from neg(1) s have "(1 - s) * ?e1 < 0" by (simp add: mult_less_0_iff)
      with neg(2) have "0 < s * ?e2" by linarith
      with s have "0 < ?e2" by (simp add: zero_less_mult_iff)
      with neg(1) show ?thesis by simp
    qed
  qed
  from a' b' show ?thesis by (simp add: crosses_directions)
qed

lemma not_crosses_touching:
  "get_direction c d q = 0 \<Longrightarrow> \<not> crosses (p, q) (c, d)"
  by (simp add: crosses_directions)

text \<open>What a collision does to the walls that cross a ray.\<close>

lemma collision_shrinks:
  assumes "crosses (p, q) (wall_line w)" and "get_intersection p q (wall_a w) (wall_b w) = Inr i"
  shows "\<not> crosses (p, i) (wall_line w)"
    and "crosses (p, i) (wall_line w') \<Longrightarrow> crosses (p, q) (wall_line w')"
proof -
  let ?s = "- get_direction (wall_a w) (wall_b w) p
     / (get_direction (wall_a w) (wall_b w) q - get_direction (wall_a w) (wall_b w) p)"
  from assms(1) have c: "crosses (p, q) (wall_a w, wall_b w)" by (simp add: wall_line_def)
  from crossing_parameter [OF c] assms(2)
  have s: "0 < ?s" "?s < 1" and i: "i = along p q ?s"
    and z: "get_direction (wall_a w) (wall_b w) (along p q ?s) = 0"
    by simp_all
  from z i show "\<not> crosses (p, i) (wall_line w)"
    by (simp add: wall_line_def not_crosses_touching)
  assume "crosses (p, i) (wall_line w')"
  with i have "crosses (p, along p q ?s) (wall_a w', wall_b w')" by (simp add: wall_line_def)
  from crosses_shorter [OF s this] show "crosses (p, q) (wall_line w')"
    by (simp add: wall_line_def)
qed

section \<open>The loop of the Intersection Resolver\<close>

text \<open>
  The weight of a pending ray bounds the number of rays the loop still visits because of
  it: a 2-tuple from the origin can only be replaced as often as there are walls crossing
  it, and every other ray is replaced by such a 2-tuple.
\<close>

definition ray_weight :: "point \<Rightarrow> wall list \<Rightarrow> ray \<Rightarrow> nat" where
  "ray_weight origin ws ray =
     (case ray of
        Ray2 p q \<Rightarrow>
          (if p = origin then 1 + length (filter (\<lambda>w. crosses (p, q) (wall_line w)) ws)
           else length ws + 2)
      | Ray4 p q r3 r4 \<Rightarrow> length ws + 2)"

lemma ray_weight_pos: "0 < ray_weight origin ws ray"
  by (cases ray) (simp_all add: ray_weight_def)

lemma ray_weight_Ray2_le: "ray_weight origin ws (Ray2 origin i) \<le> length ws + 1"
  by (simp add: ray_weight_def)

lemma ray_weight_le: "ray_weight origin ws ray \<le> length ws + 2"
proof (cases ray)
  case (Ray2 p q)
  have "length (filter (\<lambda>w. crosses (p, q) (wall_line w)) ws) \<le> length ws"
    by (rule length_filter_le)
  with Ray2 show ?thesis by (auto simp: ray_weight_def intro: le_SucI)
next
  case (Ray4 p q r3 r4)
  then show ?thesis by (simp add: ray_weight_def)
qed

lemma filter_length_less:
  assumes "\<And>x. x \<in> set xs \<Longrightarrow> P x \<Longrightarrow> Q x" and "w \<in> set xs" and "Q w" and "\<not> P w"
  shows "length (filter P xs) < length (filter Q xs)"
  using assms
proof (induction xs)
  case Nil
  then show ?case by simp
next
  case (Cons x xs)
  have le: "length (filter P xs) \<le> length (filter Q xs)"
  proof -
    have "filter P xs = filter P (filter Q xs)"
      using Cons.prems(1) by (auto simp: filter_filter intro: filter_cong)
    then show ?thesis by (metis length_filter_le)
  qed
  show ?case
  proof (cases "w = x")
    case True
    with Cons.prems le show ?thesis by simp
  next
    case False
    with Cons.prems have "w \<in> set xs" by simp
    from Cons.IH [OF _ this Cons.prems(3) Cons.prems(4)] Cons.prems(1)
    have "length (filter P xs) < length (filter Q xs)" by simp
    with Cons.prems(1) [of x] show ?thesis by auto
  qed
qed

lemma colliding_wall_Some:
  "colliding_wall ws ray = Some w \<Longrightarrow> w \<in> set ws \<and> collides ray w"
  by (auto simp: colliding_wall_def find_Some_iff)

lemma replacement_weight:
  assumes "colliding_wall ws ray = Some w"
    and "get_intersection (ray_a ray) (ray_b ray) (wall_a w) (wall_b w) = Inr i"
  shows "ray_weight origin ws (Ray2 origin i) < ray_weight origin ws ray"
proof -
  from colliding_wall_Some [OF assms(1)]
  have w: "w \<in> set ws" and c: "crosses (ray_a ray, ray_b ray) (wall_line w)"
    by (simp_all add: collides_def)
  show ?thesis
  proof (cases "\<exists>q. ray = Ray2 origin q")
    case True
    then obtain q where r: "ray = Ray2 origin q" by blast
    from c r have cq: "crosses (origin, q) (wall_line w)" by simp
    from assms(2) r have gi: "get_intersection origin q (wall_a w) (wall_b w) = Inr i" by simp
    have "length (filter (\<lambda>w. crosses (origin, i) (wall_line w)) ws)
            < length (filter (\<lambda>w. crosses (origin, q) (wall_line w)) ws)"
      using collision_shrinks [OF cq gi] w cq by (intro filter_length_less [of ws _ _ w]) auto
    with r show ?thesis by (simp add: ray_weight_def)
  next
    case False
    then have "ray_weight origin ws ray = length ws + 2"
      by (cases ray) (auto simp: ray_weight_def)
    with ray_weight_Ray2_le [of origin ws i] show ?thesis by simp
  qed
qed

text \<open>
  The loop for ray in rays, which appends to the list it iterates over: pending holds the
  rays not yet visited, seen those already visited, so that the list rays of the source is
  seen @ pending at every moment.
\<close>

function resolve_rays ::
  "point \<Rightarrow> wall list \<Rightarrow> ray list \<Rightarrow> ray list \<Rightarrow> ray list \<Rightarrow> py_error + ray list \<times> ray list" where
  "resolve_rays origin ws [] seen colliding_rays = Inr (seen, colliding_rays)"
| "resolve_rays origin ws (ray # pending) seen colliding_rays =
     (case colliding_wall ws ray of
        None \<Rightarrow> resolve_rays origin ws pending (seen @ [ray]) colliding_rays
      | Some w \<Rightarrow>
          (case get_intersection (ray_a ray) (ray_b ray) (wall_a w) (wall_b w) of
             Inl err \<Rightarrow> Inl err
           | Inr i \<Rightarrow>
               resolve_rays origin ws (pending @ [Ray2 origin i]) (seen @ [ray])
                 (colliding_rays @ [ray])))"
  by pat_completeness auto
termination
proof (relation "measure (\<lambda>(origin, ws, pending, seen, colliding_rays).
                    sum_list (map (ray_weight origin ws) pending))")
  show "wf (measure (\<lambda>(origin, ws, pending, seen, colliding_rays).
                    sum_list (map (ray_weight origin ws) pending)))"
    by simp
next
  fix origin :: point and ws ray pending and seen colliding_rays :: "ray list"
  assume "colliding_wall ws ray = None"
  show "((origin, ws, pending, seen @ [ray], colliding_rays),
         (origin, ws, ray # pending, seen, colliding_rays))
        \<in> measure (\<lambda>(origin, ws, pending, seen, colliding_rays).
                    sum_list (map (ray_weight origin ws) pending))"
    using ray_weight_pos [of origin ws ray] by simp
next
  fix origin :: point and ws ray pending and seen colliding_rays :: "ray list" and w i
  assume "colliding_wall ws ray = Some w"
    and "get_intersection (ray_a ray) (ray_b ray) (wall_a w) (wall_b w) = Inr i"
  from replacement_weight [OF this, of origin]
  show "((origin, ws, pending @ [Ray2 origin i], seen @ [ray], colliding_rays @ [ray]),
         (origin, ws, ray # pending, seen, colliding_rays))
        \<in> measure (\<lambda>(origin, ws, pending, seen, colliding_rays).
                    sum_list (map (ray_weight origin ws) pending))"
    by simp
qed

text \<open>walls.sort(key=lambda w: distance_2d((w.centroid.x, w.centroid.y), origin)); the sort is stable.\<close>

definition sort_walls :: "geometry \<Rightarrow> point \<Rightarrow> wall list \<Rightarrow> wall list" where
  "sort_walls g origin ws = sort_key (\<lambda>w. distance_2d g (wall_centroid w) origin) ws"

text \<open>
  The three statements after the loop: the rays that collided are filtered out, the rest is
  sorted by the angle of the target, and the polygon is the list of the targets.
\<close>

definition final_rays :: "geometry \<Rightarrow> point \<Rightarrow> ray list \<Rightarrow> ray list \<Rightarrow> ray list" where
  "final_rays g origin rs colliding_rays =
     sort_key (\<lambda>r. calculate_angle g origin (ray_b r))
       (filter (\<lambda>ray. ray \<notin> set colliding_rays) rs)"

definition update_light :: "geometry \<Rightarrow> light \<Rightarrow> py_error + light" where
  "update_light g l =
     (let ws = map snd (walls l);
          origin = (light_x l, light_y l);
          eps = sort_key (\<lambda>e. calculate_angle g origin (position e)) (endpoints l)
      in case cast_rays g (walls l) eps origin (power l) of
           Inl err \<Rightarrow> Inl err
         | Inr rs \<Rightarrow>
            (case resolve_rays origin (sort_walls g origin ws) rs [] [] of
               Inl err \<Rightarrow> Inl err
             | Inr res \<Rightarrow>
                (let rays' = final_rays g origin (fst res) (snd res);
                     polygon = map ray_b rays'
                 in Inr (l\<lparr>endpoints := eps, rays := rays', light_polygon := polygon\<rparr>))))"

text \<open>Light.update is an alias of update_light.\<close>

definition update :: "geometry \<Rightarrow> light \<Rightarrow> py_error + light" where
  "update g l = update_light g l"

text \<open>
  Modelled from the spec: a geometry on which the model is evaluated in examples. The module
  geometry is not under src/; the spec names its functions as distance, angle of a target
  around the origin, a point at a distance along an angle, and the quadrant of a position
  relative to the origin, split at the origin's axes. The distance is the Euclidean one and
  the angle the polar angle in radians, in the interval from 0 to 2 pi.
\<close>

definition euclidean_distance :: "point \<Rightarrow> point \<Rightarrow> real" where
  "euclidean_distance p q = sqrt ((fst p - fst q)\<^sup>2 + (snd p - snd q)\<^sup>2)"

definition polar_angle :: "point \<Rightarrow> point \<Rightarrow> real" where
  "polar_angle start target =
     (let dx = fst target - fst start; dy = snd target - snd start
      in if dx > 0 then (if dy \<ge> 0 then arctan (dy / dx) else arctan (dy / dx) + 2 * pi)
         else if dx < 0 then arctan (dy / dx) + pi
         else if dy > 0 then pi / 2
         else if dy < 0 then 3 * pi / 2
         else 0)"

definition polar_move :: "point \<Rightarrow> real \<Rightarrow> real \<Rightarrow> point" where
  "polar_move start d angle = (fst start + d * cos angle, snd start + d * sin angle)"

definition axis_quadrant :: "point \<Rightarrow> point \<Rightarrow> Quadrant" where
  "axis_quadrant p origin =
     (if fst p < fst origin then (if snd p < snd origin then LL else UL)
      else (if snd p < snd origin then LR else UR))"

definition plane_geometry :: geometry where
  "plane_geometry =
     \<lparr>distance_2d = euclidean_distance, calculate_angle = polar_angle,
      move_along_vector = polar_move, quadrant = axis_quadrant\<rparr>"

text \<open>A Light is constructed, which runs find_walls, and then updated once.\<close>

definition light_then_update ::
  "geometry \<Rightarrow> real \<Rightarrow> real \<Rightarrow> nat \<Rightarrow> nat \<Rightarrow> light \<Rightarrow> py_error + light" where
  "light_then_update g SCREEN_H SCREEN_W wall_count endpoint_count l =
     (case find_walls SCREEN_H SCREEN_W wall_count endpoint_count l of
        Inl err \<Rightarrow> Inl err
      | Inr l' \<Rightarrow> update_light g l')"

section \<open>Properties of the Wall Builder\<close>


lemma Wall_sel [simp]:
  "wall_id (Wall i p q) = i" "wall_a (Wall i p q) = p" "wall_b (Wall i p q) = q"
  by (simp_all add: Wall_def)

lemma new_light_sel [simp]:
  "obstacles (new_light x y pw obs) = obs" "light_x (new_light x y pw obs) = x"
  "light_y (new_light x y pw obs) = y" "power (new_light x y pw obs) = pw"
  by (simp_all add: new_light_def)

lemma obstacle_walls_nonempty:
  "points \<noteq> [] \<Longrightarrow>
     obstacle_walls points =
       Inr (map (\<lambda>i. (points ! i, points ! (i + 1))) [0..<length points - 1]
            @ [(last points, hd points)])"
  by (cases points) (simp_all add: obstacle_walls_def Let_def)

lemma obstacle_walls_empty: "obstacle_walls [] = Inl IndexError"
  by (simp add: obstacle_walls_def)

lemma obstacle_walls_length:
  "obstacle_walls points = Inr es \<Longrightarrow> length es = length points"
  by (cases "points = []") (auto simp: obstacle_walls_nonempty obstacle_walls_empty)

lemma collect_walls_length:
  "\<forall>ps \<in> set obs. ps \<noteq> [] \<Longrightarrow>
     \<exists>ws'. collect_walls obs ws = Inr ws' \<and> length ws' = length ws + sum_list (map length obs)"
proof (induction obs arbitrary: ws)
  case Nil
  then show ?case by simp
next
  case (Cons ps obs)
  then have ne: "ps \<noteq> []" by simp
  from Cons.IH [of "ws @ (map (\<lambda>i. (ps ! i, ps ! (i + 1))) [0..<length ps - 1] @ [(last ps, hd ps)])"]
    Cons.prems ne
  show ?case by (auto simp: obstacle_walls_nonempty)
qed

lemma collect_walls_empty_obstacle:
  "[] \<in> set obs \<Longrightarrow> collect_walls obs ws = Inl IndexError"
proof (induction obs arbitrary: ws)
  case Nil
  then show ?case by simp
next
  case (Cons ps obs)
  show ?case
  proof (cases "ps = []")
    case True
    then show ?thesis by (simp add: obstacle_walls_empty)
  next
    case False
    with Cons show ?thesis by (simp add: obstacle_walls_nonempty)
  qed
qed

lemma collect_walls_prefix:
  "collect_walls obs ws = Inr ws' \<Longrightarrow> \<exists>es. ws' = ws @ es"
proof (induction obs arbitrary: ws)
  case Nil
  then show ?case by simp
next
  case (Cons ps obs)
  then show ?case by (fastforce split: sum.splits)
qed

lemma collect_walls_single:
  "\<forall>ps \<in> set obs. ps \<noteq> [] \<Longrightarrow> [p] \<in> set obs \<Longrightarrow>
     \<exists>ws'. collect_walls obs ws = Inr ws' \<and> (p, p) \<in> set ws'"
proof (induction obs arbitrary: ws)
  case Nil
  then show ?case by simp
next
  case (Cons ps obs)
  then have ne: "ps \<noteq> []" by simp
  let ?es = "map (\<lambda>i. (ps ! i, ps ! (i + 1))) [0..<length ps - 1] @ [(last ps, hd ps)]"
  show ?case
  proof (cases "ps = [p]")
    case True
    from collect_walls_length [of obs "ws @ [(p, p)]"] Cons.prems
    obtain ws' where w: "collect_walls obs (ws @ [(p, p)]) = Inr ws'" by auto
    from collect_walls_prefix [OF w] have "(p, p) \<in> set ws'" by auto
    with w True show ?thesis by (simp add: obstacle_walls_nonempty)
  next
    case False
    with Cons.prems have "[p] \<in> set obs" "\<forall>ps \<in> set obs. ps \<noteq> []" by auto
    from Cons.IH [OF this(2) this(1), of "ws @ ?es"] ne
    show ?thesis by (simp add: obstacle_walls_nonempty)
  qed
qed

lemma make_walls_length: "length (make_walls c ws) = length ws"
  by (induction ws arbitrary: c) (simp_all add: new_id_def)

lemma make_walls_ids: "map wall_id (make_walls c ws) = [c + 1..<c + 1 + length ws]"
proof (induction ws arbitrary: c)
  case Nil
  then show ?case by simp
next
  case (Cons w ws)
  have "[c + 1..<c + 1 + length (w # ws)] = (c + 1) # [Suc (c + 1)..<c + 1 + length (w # ws)]"
    by (rule upt_conv_Cons) simp
  with Cons [of "c + 1"] show ?case by (simp add: new_id_def Wall_def)
qed

lemma make_walls_lines: "map wall_line (make_walls c ws) = ws"
  by (induction ws arbitrary: c) (simp_all add: new_id_def Wall_def wall_line_def)

lemma make_walls_distinct: "distinct (map wall_id (make_walls c ws))"
  by (simp add: make_walls_ids)

lemma fold_update_fresh:
  "distinct (map wall_id ws) \<Longrightarrow> set (map wall_id ws) \<inter> fst ` set d = {} \<Longrightarrow>
     fold (\<lambda>w d. AList.update (wall_id w) w d) ws d = d @ map (\<lambda>w. (wall_id w, w)) ws"
proof (induction ws arbitrary: d)
  case Nil
  then show ?case by simp
next
  case (Cons w ws)
  have fresh: "wall_id w \<notin> fst ` set d" using Cons.prems by auto
  then have u: "AList.update (wall_id w) w d = d @ [(wall_id w, w)]"
    by (induction d) auto
  have "set (map wall_id ws) \<inter> fst ` set (d @ [(wall_id w, w)]) = {}"
    using Cons.prems by auto
  with Cons.IH [of "d @ [(wall_id w, w)]"] Cons.prems u show ?case by simp
qed

lemma walls_dict_distinct:
  "distinct (map wall_id ws) \<Longrightarrow> walls_dict ws = map (\<lambda>w. (wall_id w, w)) ws"
  using fold_update_fresh [of ws "[]"] by (simp add: walls_dict_def)

section \<open>Properties of the Endpoint Index\<close>

lemma visit_endings_inv:
  "visit_endings es (eps, visited, c) = (eps', visited', c') \<Longrightarrow>
   map position eps = visited \<Longrightarrow> distinct visited \<Longrightarrow>
     map position eps' = visited' \<and> distinct visited' \<and> set visited' = set visited \<union> set es"
proof (induction es arbitrary: eps visited c)
  case Nil
  then show ?case by simp
next
  case (Cons e es)
  show ?case
  proof (cases "e \<in> set visited")
    case True
    with Cons.prems have "visit_endings es (eps, visited, c) = (eps', visited', c')" by simp
    from Cons.IH [OF this Cons.prems(2) Cons.prems(3)] True show ?thesis by auto
  next
    case False
    with Cons.prems have
      "visit_endings es (eps @ [Endpoint (c + 1) (fst e) (snd e)], visited @ [e], c + 1)
         = (eps', visited', c')"
      by (simp add: new_id_def)
    from Cons.IH [OF this] Cons.prems(2) Cons.prems(3) False show ?thesis
      by (auto simp: Endpoint_def)
  qed
qed

lemma position_tag_endpoint: "position (tag_endpoint w e) = position e"
  by (simp add: tag_endpoint_def)

lemma positions_tag_endpoints: "map position (tag_endpoints ws eps) = map position eps"
  by (induction ws arbitrary: eps) (simp_all add: comp_def position_tag_endpoint)

lemma find_endpoints_positions:
  "distinct (map position (find_endpoints c ws))
   \<and> set (map position (find_endpoints c ws)) = set (wall_endings ws)"
proof -
  obtain eps visited c' where v: "visit_endings (wall_endings ws) ([], [], c) = (eps, visited, c')"
    by (cases "visit_endings (wall_endings ws) ([], [], c)") auto
  from visit_endings_inv [OF v] have
    "map position eps = visited" "distinct visited" "set visited = set (wall_endings ws)"
    by auto
  with v show ?thesis
    by (simp add: find_endpoints_def positions_tag_endpoints)
qed

lemma length_wall_endings: "length (wall_endings ws) = 2 * length ws"
  by (induction ws) (simp_all add: wall_endings_def)

lemma find_endpoints_length:
  "length (find_endpoints c ws) = card (set (wall_endings ws))"
proof -
  from find_endpoints_positions [of c ws]
  have d: "distinct (map position (find_endpoints c ws))"
    and s: "set (map position (find_endpoints c ws)) = set (wall_endings ws)"
    by blast+
  from distinct_card [OF d] s show ?thesis by (metis length_map)
qed

section \<open>Properties of the Intersection Resolver\<close>

lemma collision_intersection:
  assumes "colliding_wall ws ray = Some w"
  shows "\<exists>i. get_intersection (ray_a ray) (ray_b ray) (wall_a w) (wall_b w) = Inr i"
proof -
  from colliding_wall_Some [OF assms]
  have "crosses (ray_a ray, ray_b ray) (wall_a w, wall_b w)"
    by (simp add: collides_def wall_line_def)
  from crossing_parameter(3) [OF this] show ?thesis by blast
qed

lemma resolve_rays_returns:
  "\<exists>res. resolve_rays origin ws pending seen cr = Inr res"
proof (induction origin ws pending seen cr rule: resolve_rays.induct)
  case (1 origin ws seen cr)
  then show ?case by simp
next
  case (2 origin ws ray pending seen cr)
  show ?case
  proof (cases "colliding_wall ws ray")
    case None
    with 2(1) show ?thesis by simp
  next
    case (Some w)
    from collision_intersection [OF Some] obtain i
      where i: "get_intersection (ray_a ray) (ray_b ray) (wall_a w) (wall_b w) = Inr i" by blast
    from 2(2) [OF Some i] Some i show ?thesis by simp
  qed
qed

lemma resolve_rays_length:
  "resolve_rays origin ws pending seen cr = Inr res \<Longrightarrow>
     length (fst res) \<le> length seen + sum_list (map (ray_weight origin ws) pending)"
proof (induction origin ws pending seen cr rule: resolve_rays.induct)
  case (1 origin ws seen cr)
  then show ?case by auto
next
  case (2 origin ws ray pending seen cr)
  show ?case
  proof (cases "colliding_wall ws ray")
    case None
    with 2(1) 2(3) ray_weight_pos [of origin ws ray] show ?thesis by fastforce
  next
    case (Some w)
    from collision_intersection [OF Some] obtain i
      where i: "get_intersection (ray_a ray) (ray_b ray) (wall_a w) (wall_b w) = Inr i" by blast
    from 2(3) Some i have
      "resolve_rays origin ws (pending @ [Ray2 origin i]) (seen @ [ray]) (cr @ [ray]) = Inr res"
      by simp
    from 2(2) [OF Some i this] replacement_weight [OF Some i, of origin]
    show ?thesis by simp
  qed
qed

lemma sum_weights_le:
  "sum_list (map (ray_weight origin ws) rs) \<le> length rs * (length ws + 2)"
proof (induction rs)
  case Nil
  then show ?case by simp
next
  case (Cons r rs)
  with ray_weight_le [of origin ws r] show ?case by simp
qed

text \<open>The invariant of the loop, and what it gives when the loop ends.\<close>

definition resolved :: "point \<Rightarrow> wall list \<Rightarrow> ray list \<Rightarrow> ray list \<Rightarrow> ray list \<Rightarrow> bool" where
  "resolved origin ws pending seen cr \<longleftrightarrow>
     (\<forall>r. r \<in> set cr \<longleftrightarrow> r \<in> set seen \<and> colliding_wall ws r \<noteq> None)
     \<and> (\<forall>r \<in> set seen. \<forall>w i. colliding_wall ws r = Some w
            \<longrightarrow> get_intersection (ray_a r) (ray_b r) (wall_a w) (wall_b w) = Inr i
            \<longrightarrow> Ray2 origin i \<in> set seen \<union> set pending)"

lemma resolve_rays_invariant:
  "resolve_rays origin ws pending seen cr = Inr res \<Longrightarrow> resolved origin ws pending seen cr \<Longrightarrow>
     resolved origin ws [] (fst res) (snd res) \<and> set seen \<union> set pending \<subseteq> set (fst res)"
proof (induction origin ws pending seen cr rule: resolve_rays.induct)
  case (1 origin ws seen cr)
  then show ?case by auto
next
  case (2 origin ws ray pending seen cr)
  show ?case
  proof (cases "colliding_wall ws ray")
    case None
    with 2(3) have r: "resolve_rays origin ws pending (seen @ [ray]) cr = Inr res" by simp
    from 2(4) None have "resolved origin ws pending (seen @ [ray]) cr"
      unfolding resolved_def by auto
    from 2(1) [OF None r this] show ?thesis by auto
  next
    case (Some w)
    from collision_intersection [OF Some] obtain i
      where i: "get_intersection (ray_a ray) (ray_b ray) (wall_a w) (wall_b w) = Inr i" by blast
    from 2(3) Some i have r:
      "resolve_rays origin ws (pending @ [Ray2 origin i]) (seen @ [ray]) (cr @ [ray]) = Inr res"
      by simp
    from 2(4) Some i
    have "resolved origin ws (pending @ [Ray2 origin i]) (seen @ [ray]) (cr @ [ray])"
      unfolding resolved_def by auto
    from 2(2) [OF Some i r this] show ?thesis by auto
  qed
qed

lemma resolved_empty: "resolved origin ws rs [] []"
  by (simp add: resolved_def)

lemma colliding_wall_first:
  "colliding_wall ws ray = Some w \<Longrightarrow>
     \<exists>pre post. ws = pre @ w # post \<and> (\<forall>w' \<in> set pre. \<not> collides ray w') \<and> collides ray w"
proof -
  assume "colliding_wall ws ray = Some w"
  then obtain k where k: "k < length ws" "collides ray (ws ! k)" "w = ws ! k"
    "\<forall>j<k. \<not> collides ray (ws ! j)"
    by (auto simp: colliding_wall_def find_Some_iff)
  have "ws = take k ws @ w # drop (Suc k) ws" using k(1) k(3) by (simp add: id_take_nth_drop)
  moreover have "\<forall>w' \<in> set (take k ws). \<not> collides ray w'"
    using k(1) k(4) by (auto simp: in_set_conv_nth)
  ultimately show ?thesis using k(2) k(3) by blast
qed

lemma colliding_wall_None:
  "colliding_wall ws ray = None \<longleftrightarrow> (\<forall>w \<in> set ws. \<not> collides ray w)"
  by (auto simp: colliding_wall_def find_None_iff)

lemma sorted_sort_walls:
  "sorted (map (\<lambda>w. distance_2d g (wall_centroid w) origin) (sort_walls g origin ws))"
  by (simp add: sort_walls_def)

lemma final_rays_set:
  "set (final_rays g origin rs cr) = set rs - set cr"
  by (auto simp: final_rays_def)

section \<open>Properties of the Ray Caster\<close>

text \<open>Predicates on endpoints and on the state of the loop, used in the statements below.\<close>

definition in_range :: "geometry \<Rightarrow> point \<Rightarrow> real \<Rightarrow> endpoint \<Rightarrow> bool" where
  "in_range g origin max_range e \<longleftrightarrow> \<not> distance_2d g origin (position e) > max_range"

definition tagged :: "(nat \<times> wall) list \<Rightarrow> endpoint \<Rightarrow> bool" where
  "tagged ws e \<longleftrightarrow>
     (\<exists>w. lookup_wall ws (begins e) = Inr w) \<and> (\<exists>w. lookup_wall ws (ends e) = Inr w)"

definition edge_state :: "ray list \<times> nat option \<times> real option \<Rightarrow> bool" where
  "edge_state st \<longleftrightarrow> (fst (snd st) = None \<or> snd (snd st) \<noteq> None)"

lemma lookup_wall_error: "lookup_wall ws k = Inl err \<Longrightarrow> err = KeyError"
  by (auto simp: lookup_wall_def split: option.splits)

lemma lookup_wall_cases:
  "lookup_wall ws k = Inl KeyError \<or> (\<exists>w. lookup_wall ws k = Inr w)"
  by (auto simp: lookup_wall_def split: option.splits)

lemma not_blocked_error: "not_blocked edge ed bg d = Inl err \<Longrightarrow> err = TypeError \<and> edge \<noteq> None \<and> ed = None"
  by (auto simp: not_blocked_def split: if_splits option.splits)

lemma cast_endpoint_out_of_range:
  "\<not> in_range g origin max_range e \<Longrightarrow> cast_endpoint g ws origin max_range e st = Inr st"
  by (cases st) (simp add: cast_endpoint_def in_range_def)

lemma cast_endpoint_blocked:
  "in_range g origin max_range e \<Longrightarrow>
   not_blocked edge ed (begins e) (distance_2d g (position e) origin) = Inr False \<Longrightarrow>
     cast_endpoint g ws origin max_range e (rs, edge, ed) = Inr (rs, edge, ed)"
  by (simp add: cast_endpoint_def in_range_def Let_def)

text \<open>The rays that one endpoint contributes when it is not skipped.\<close>

definition emitted :: "geometry \<Rightarrow> point \<Rightarrow> real \<Rightarrow> endpoint \<Rightarrow> wall \<Rightarrow> wall \<Rightarrow> ray list" where
  "emitted g origin max_range e wb we =
     (let angle = calculate_angle g origin (position e);
          offs = offset_rays (quadrant g (position e) origin) angle
                   (calculate_angle g origin (wall_b wb)) (calculate_angle g origin (wall_a we))
                   origin
                   (move_along_vector g origin max_range (- angle + 1 / 10000))
                   (move_along_vector g origin max_range (- angle - 1 / 10000))
      in append_offset
           (append_offset [Ray4 origin (position e) (begins e) (ends e)] (fst offs)
              (begins e) (ends e))
           (snd offs) (begins e) (ends e))"

lemma append_offset_append:
  "append_offset (rs @ xs) off bg en = rs @ append_offset xs off bg en"
  by (simp add: append_offset_def split: option.splits)

lemma cast_endpoint_emits:
  assumes "in_range g origin max_range e"
    and "not_blocked edge ed (begins e) (distance_2d g (position e) origin) = Inr True"
    and "lookup_wall ws (ends e) = Inr we" and "lookup_wall ws (begins e) = Inr wb"
  shows "\<exists>edge' ed'. cast_endpoint g ws origin max_range e (rs, edge, ed) =
           Inr (append_workaround origin (rs @ emitted g origin max_range e wb we), edge', ed')
         \<and> (edge' = None \<or> ed' \<noteq> None)
         \<and> edge' = (if calculate_angle g origin (wall_a we) > calculate_angle g origin (position e)
                     then ends e else None)
         \<and> ed' = (if calculate_angle g origin (wall_a we) > calculate_angle g origin (position e)
                   then Some (max (distance_2d g (position e) origin)
                                  (distance_2d g (wall_a we) origin))
                   else ed)"
  using assms
  by (simp add: cast_endpoint_def in_range_def Let_def emitted_def append_offset_append
      del: append_assoc flip: append_offset_append)

lemma cast_endpoint_key_error:
  assumes "in_range g origin max_range e"
    and "not_blocked edge ed (begins e) (distance_2d g (position e) origin) = Inr True"
    and "lookup_wall ws (ends e) = Inl KeyError \<or> lookup_wall ws (begins e) = Inl KeyError"
  shows "cast_endpoint g ws origin max_range e (rs, edge, ed) = Inl KeyError"
proof (cases "lookup_wall ws (ends e)")
  case (Inl err)
  with lookup_wall_error [OF Inl] assms show ?thesis
    by (simp add: cast_endpoint_def in_range_def Let_def)
next
  case (Inr we)
  with assms have "lookup_wall ws (begins e) = Inl KeyError" by simp
  with Inr assms show ?thesis
    by (simp add: cast_endpoint_def in_range_def Let_def)
qed


definition workaround :: "point \<Rightarrow> ray" where
  "workaround origin = Ray4 origin (0, 0) None None"

definition four_tuples :: "ray list \<Rightarrow> bool" where
  "four_tuples rs \<longleftrightarrow> list_all (\<lambda>r. case r of Ray2 p q \<Rightarrow> False | Ray4 p q r3 r4 \<Rightarrow> True) rs"

lemma four_tuples_append [simp]:
  "four_tuples (rs @ xs) \<longleftrightarrow> four_tuples rs \<and> four_tuples xs"
  by (simp add: four_tuples_def)

lemma four_tuples_no_Ray2: "four_tuples rs \<Longrightarrow> Ray2 p q \<notin> set rs"
  by (auto simp: four_tuples_def list_all_iff)

lemma append_workaround_four_tuples:
  "four_tuples rs \<Longrightarrow> append_workaround origin rs = rs @ [workaround origin]"
  by (simp add: append_workaround_def workaround_def four_tuples_no_Ray2)

lemma four_tuples_workaround [simp]: "four_tuples [workaround origin]"
  by (simp add: four_tuples_def workaround_def)

lemma four_tuples_append_offset:
  "four_tuples rs \<Longrightarrow> four_tuples (append_offset rs off bg en)"
  by (simp add: append_offset_def four_tuples_def split: option.splits)

lemma four_tuples_emitted: "four_tuples (emitted g origin max_range e wb we)"
  unfolding emitted_def Let_def
  by (intro four_tuples_append_offset) (simp add: four_tuples_def)

lemma count_append_offset:
  "bg \<noteq> None \<Longrightarrow>
     count_list (append_offset rs off bg en) (workaround origin) = count_list rs (workaround origin)"
  by (auto simp: append_offset_def workaround_def split: option.splits)

lemma count_emitted:
  "begins e \<noteq> None \<Longrightarrow> count_list (emitted g origin max_range e wb we) (workaround origin) = 0"
  unfolding emitted_def Let_def
  by (simp add: count_append_offset) (auto simp: workaround_def)

lemma lookup_wall_Some: "lookup_wall ws k = Inr w \<Longrightarrow> k \<noteq> None"
  by (auto simp: lookup_wall_def split: option.splits)

text \<open>The three ways in which the body of the loop can end without an error.\<close>

lemma cast_endpoint_cases:
  assumes "cast_endpoint g ws origin max_range e (rs, edge, ed) = Inr (rs', edge', ed')"
  shows "rs' = rs
         \<or> (\<exists>wb we. in_range g origin max_range e
              \<and> not_blocked edge ed (begins e) (distance_2d g (position e) origin) = Inr True
              \<and> lookup_wall ws (ends e) = Inr we \<and> lookup_wall ws (begins e) = Inr wb
              \<and> rs' = append_workaround origin (rs @ emitted g origin max_range e wb we))"
proof (cases "in_range g origin max_range e")
  case False
  from cast_endpoint_out_of_range [OF False] assms show ?thesis by simp
next
  case True
  show ?thesis
  proof (cases "not_blocked edge ed (begins e) (distance_2d g (position e) origin)")
    case (Inl err)
    with True assms show ?thesis by (simp add: cast_endpoint_def in_range_def Let_def)
  next
    case (Inr b)
    show ?thesis
    proof (cases b)
      case False
      with Inr cast_endpoint_blocked [OF True, of edge ed ws rs] assms show ?thesis by simp
    next
      case b: True
      from lookup_wall_cases [of ws "ends e"] lookup_wall_cases [of ws "begins e"]
      consider "lookup_wall ws (ends e) = Inl KeyError \<or> lookup_wall ws (begins e) = Inl KeyError"
        | we wb where "lookup_wall ws (ends e) = Inr we" "lookup_wall ws (begins e) = Inr wb"
        by blast
      then show ?thesis
      proof cases
        case 1
        from cast_endpoint_key_error [OF True _ 1, of edge ed rs] Inr b assms
        show ?thesis by simp
      next
        case 2
        from cast_endpoint_emits [OF True _ 2, of edge ed rs] Inr b assms True 2
        show ?thesis by auto
      qed
    qed
  qed
qed

lemma cast_endpoint_error:
  "cast_endpoint g ws origin max_range e st = Inl err \<Longrightarrow> err = KeyError \<or> err = TypeError"
  by (cases st)
    (auto simp: cast_endpoint_def Let_def
      dest: lookup_wall_error not_blocked_error split: if_splits sum.splits bool.splits)

lemma cast_endpoint_returns:
  assumes "in_range g origin max_range e \<Longrightarrow> tagged ws e" and "edge_state st"
  shows "\<exists>st'. cast_endpoint g ws origin max_range e st = Inr st' \<and> edge_state st'"
proof (cases "in_range g origin max_range e")
  case False
  from cast_endpoint_out_of_range [OF False] assms(2) show ?thesis by simp
next
  case True
  obtain rs edge ed where st: "st = (rs, edge, ed)" by (cases st) auto
  from assms(1) [OF True] obtain wb we
    where t: "lookup_wall ws (ends e) = Inr we" "lookup_wall ws (begins e) = Inr wb"
    by (auto simp: tagged_def)
  show ?thesis
  proof (cases "not_blocked edge ed (begins e) (distance_2d g (position e) origin)")
    case (Inl err)
    from not_blocked_error [OF Inl] assms(2) st show ?thesis by (simp add: edge_state_def)
  next
    case (Inr b)
    show ?thesis
    proof (cases b)
      case False
      with Inr cast_endpoint_blocked [OF True, of edge ed ws rs] assms(2) st
      show ?thesis by simp
    next
      case b: True
      from cast_endpoint_emits [OF True _ t, of edge ed rs] Inr b st
      show ?thesis by (auto simp: edge_state_def)
    qed
  qed
qed

lemma cast_rays_loop_returns:
  assumes "\<forall>e \<in> set eps. in_range g origin max_range e \<longrightarrow> tagged ws e" and "edge_state st"
  shows "\<exists>st'. cast_rays_loop g ws origin max_range eps st = Inr st' \<and> edge_state st'"
  using assms
proof (induction eps arbitrary: st)
  case Nil
  then show ?case by simp
next
  case (Cons e eps)
  from cast_endpoint_returns [of g origin max_range e ws st] Cons.prems
  obtain st' where s: "cast_endpoint g ws origin max_range e st = Inr st'" "edge_state st'"
    by auto
  from Cons.IH [OF _ s(2)] Cons.prems(1) s(1) show ?case by simp
qed

lemma cast_rays_returns:
  "\<forall>e \<in> set eps. in_range g origin max_range e \<longrightarrow> tagged ws e \<Longrightarrow>
     \<exists>rs. cast_rays g ws eps origin max_range = Inr rs"
  using cast_rays_loop_returns [of eps g origin max_range ws "([], None, None)"]
  by (auto simp: cast_rays_def edge_state_def)

lemma cast_rays_loop_error:
  "cast_rays_loop g ws origin max_range eps st = Inl err \<Longrightarrow> err = KeyError \<or> err = TypeError"
proof (induction eps arbitrary: st)
  case Nil
  then show ?case by simp
next
  case (Cons e eps)
  then show ?case
    by (auto dest: cast_endpoint_error split: sum.splits)
qed

lemma cast_rays_error:
  "cast_rays g ws eps origin max_range = Inl err \<Longrightarrow> err = KeyError \<or> err = TypeError"
  by (auto simp: cast_rays_def dest: cast_rays_loop_error split: sum.splits)

lemma cast_rays_loop_out_of_range:
  "\<forall>e \<in> set eps. \<not> in_range g origin max_range e \<Longrightarrow>
     cast_rays_loop g ws origin max_range eps st = Inr st"
  by (induction eps) (simp_all add: cast_endpoint_out_of_range)

text \<open>Rays of the caster: 4-tuples that start at the origin.\<close>

definition from_origin :: "point \<Rightarrow> ray list \<Rightarrow> bool" where
  "from_origin origin rs \<longleftrightarrow> list_all (\<lambda>r. ray_a r = origin) rs"

lemma from_origin_append [simp]:
  "from_origin origin (rs @ xs) \<longleftrightarrow> from_origin origin rs \<and> from_origin origin xs"
  by (simp add: from_origin_def)

lemma from_origin_append_offset:
  "from_origin origin rs \<Longrightarrow> off = None \<or> (\<exists>q. off = Some (origin, q)) \<Longrightarrow>
     from_origin origin (append_offset rs off bg en)"
  by (auto simp: append_offset_def from_origin_def)

lemma offset_rays_origin:
  "fst (offset_rays q angle nx th origin end_a end_b) = None
     \<or> (\<exists>p. fst (offset_rays q angle nx th origin end_a end_b) = Some (origin, p))"
  "snd (offset_rays q angle nx th origin end_a end_b) = None
     \<or> (\<exists>p. snd (offset_rays q angle nx th origin end_a end_b) = Some (origin, p))"
  by (cases q; simp add: offset_rays_def Let_def)+

lemma from_origin_emitted: "from_origin origin (emitted g origin max_range e wb we)"
  unfolding emitted_def Let_def
  by (intro from_origin_append_offset offset_rays_origin) (simp add: from_origin_def)

lemma cast_endpoint_rays:
  assumes "cast_endpoint g ws origin max_range e (rs, edge, ed) = Inr (rs', edge', ed')"
    and "four_tuples rs" and "from_origin origin rs"
  shows "four_tuples rs' \<and> from_origin origin rs'"
proof -
  from cast_endpoint_cases [OF assms(1)] show ?thesis
  proof
    assume "rs' = rs"
    with assms show ?thesis by simp
  next
    assume "\<exists>wb we. in_range g origin max_range e
              \<and> not_blocked edge ed (begins e) (distance_2d g (position e) origin) = Inr True
              \<and> lookup_wall ws (ends e) = Inr we \<and> lookup_wall ws (begins e) = Inr wb
              \<and> rs' = append_workaround origin (rs @ emitted g origin max_range e wb we)"
    then obtain wb we
      where "rs' = append_workaround origin (rs @ emitted g origin max_range e wb we)" by blast
    with assms(2) have "rs' = (rs @ emitted g origin max_range e wb we) @ [workaround origin]"
      by (simp add: append_workaround_four_tuples four_tuples_emitted)
    with assms(2) assms(3) show ?thesis
      by (simp add: four_tuples_emitted from_origin_emitted) (simp add: from_origin_def workaround_def)
  qed
qed

lemma cast_rays_loop_rays:
  "cast_rays_loop g ws origin max_range eps st = Inr st' \<Longrightarrow>
   four_tuples (fst st) \<Longrightarrow> from_origin origin (fst st) \<Longrightarrow>
     four_tuples (fst st') \<and> from_origin origin (fst st')"
proof (induction eps arbitrary: st)
  case Nil
  then show ?case by simp
next
  case (Cons e eps)
  from Cons.prems(1) obtain st1 where s: "cast_endpoint g ws origin max_range e st = Inr st1"
    and r: "cast_rays_loop g ws origin max_range eps st1 = Inr st'"
    by (auto split: sum.splits)
  from cast_endpoint_rays [of g ws origin max_range e "fst st" "fst (snd st)" "snd (snd st)"
      "fst st1" "fst (snd st1)" "snd (snd st1)"] s Cons.prems(2) Cons.prems(3)
  have "four_tuples (fst st1) \<and> from_origin origin (fst st1)" by simp
  with Cons.IH [OF r] show ?case by simp
qed

lemma cast_rays_rays:
  "cast_rays g ws eps origin max_range = Inr rs \<Longrightarrow> four_tuples rs \<and> from_origin origin rs"
  using cast_rays_loop_rays [of g ws origin max_range eps "([], None, None)"]
  by (auto simp: cast_rays_def four_tuples_def from_origin_def split: sum.splits)

lemma cast_rays_out_of_range:
  "\<forall>e \<in> set eps. \<not> in_range g origin max_range e \<Longrightarrow>
     cast_rays g ws eps origin max_range = Inr []"
  by (simp add: cast_rays_def cast_rays_loop_out_of_range)

section \<open>Properties of update\_light\<close>

lemma update_light_cases:
  assumes "update_light g l = Inr l'"
  shows "\<exists>rs res.
     cast_rays g (walls l)
         (sort_key (\<lambda>e. calculate_angle g (light_x l, light_y l) (position e)) (endpoints l))
         (light_x l, light_y l) (power l) = Inr rs
     \<and> resolve_rays (light_x l, light_y l)
         (sort_walls g (light_x l, light_y l) (map snd (walls l))) rs [] [] = Inr res
     \<and> rays l' = final_rays g (light_x l, light_y l) (fst res) (snd res)
     \<and> light_polygon l' = map ray_b (rays l')"
  using assms by (auto simp: update_light_def Let_def split: sum.splits)

lemma update_light_returns:
  assumes "cast_rays g (walls l)
         (sort_key (\<lambda>e. calculate_angle g (light_x l, light_y l) (position e)) (endpoints l))
         (light_x l, light_y l) (power l) = Inr rs"
  shows "\<exists>l'. update_light g l = Inr l'"
proof -
  from resolve_rays_returns
  obtain res where "resolve_rays (light_x l, light_y l)
         (sort_walls g (light_x l, light_y l) (map snd (walls l))) rs [] [] = Inr res"
    by blast
  with assms show ?thesis by (simp add: update_light_def Let_def)
qed

lemma update_light_error:
  "update_light g l = Inl err \<Longrightarrow> err = KeyError \<or> err = TypeError"
proof -
  assume a: "update_light g l = Inl err"
  let ?o = "(light_x l, light_y l)"
  let ?c = "cast_rays g (walls l)
         (sort_key (\<lambda>e. calculate_angle g ?o (position e)) (endpoints l)) ?o (power l)"
  show ?thesis
  proof (cases ?c)
    case (Inl e)
    with a have "e = err" by (simp add: update_light_def Let_def)
    with cast_rays_error [OF Inl] show ?thesis by simp
  next
    case (Inr rs)
    from update_light_returns [OF Inr] a show ?thesis by auto
  qed
qed

lemma sorted_final_rays:
  "sorted (map (\<lambda>r. calculate_angle g origin (ray_b r)) (final_rays g origin rs cr))"
  by (simp add: final_rays_def)

section \<open>A worked example of the resolver\<close>

text \<open>
  A ray from (0, 0) to (10, 0) and two walls: the wall with id 5 crosses it at (6, 0) and has
  the nearer centroid, the wall with id 6 crosses it at (4, 0) but has the farther centroid.
\<close>

lemma count_list_insort_key: "count_list (insort_key f x xs) y = count_list (x # xs) y"
  by (induction xs) auto

lemma count_list_sort_key: "count_list (sort_key f xs) y = count_list xs y"
  by (induction xs) (simp_all add: count_list_insort_key)

lemma sort_two_walls:
  "sort_walls plane_geometry (0, 0) [Wall 6 (4, - 1) (4, 20), Wall 5 (6, - 1) (6, 1)]
     = [Wall 5 (6, - 1) (6, 1), Wall 6 (4, - 1) (4, 20)]"
proof -
  have "6 < sqrt (425 / 4)" by (rule real_less_rsqrt) simp
  then show ?thesis
    by (simp add: sort_walls_def plane_geometry_def euclidean_distance_def wall_centroid_def
        power2_eq_square)
qed

lemma collides_first:
  "colliding_wall [Wall 5 (6, - 1) (6, 1), Wall 6 (4, - 1) (4, 20)] (Ray4 (0, 0) (10, 0) None None)
     = Some (Wall 5 (6, - 1) (6, 1))"
  by (simp add: colliding_wall_def collides_def crosses_def get_direction_def cross_product_def
      subtract_def wall_line_def)

lemma collides_second:
  "colliding_wall [Wall 5 (6, - 1) (6, 1), Wall 6 (4, - 1) (4, 20)] (Ray2 (0, 0) (6, 0))
     = Some (Wall 6 (4, - 1) (4, 20))"
  by (simp add: colliding_wall_def collides_def crosses_def get_direction_def cross_product_def
      subtract_def wall_line_def)

lemma collides_third:
  "colliding_wall [Wall 5 (6, - 1) (6, 1), Wall 6 (4, - 1) (4, 20)] (Ray2 (0, 0) (4, 0)) = None"
  by (simp add: colliding_wall_def collides_def crosses_def get_direction_def cross_product_def
      subtract_def wall_line_def)

lemma intersection_first: "get_intersection (0, 0) (10, 0) (6, - 1) (6, 1) = Inr (6, 0)"
  by (simp add: get_intersection_def)

lemma intersection_second: "get_intersection (0, 0) (6, 0) (4, - 1) (4, 20) = Inr (4, 0)"
  by (simp add: get_intersection_def)

lemma resolve_example:
  "resolve_rays (0, 0) [Wall 5 (6, - 1) (6, 1), Wall 6 (4, - 1) (4, 20)]
       [Ray4 (0, 0) (10, 0) None None] [] []
     = Inr ([Ray4 (0, 0) (10, 0) None None, Ray2 (0, 0) (6, 0), Ray2 (0, 0) (4, 0)],
            [Ray4 (0, 0) (10, 0) None None, Ray2 (0, 0) (6, 0)])"
  by (simp add: collides_first collides_second collides_third intersection_first
      intersection_second)

section \<open>The wall ids of the endpoints\<close>

lemma find_snoc:
  "find P (xs @ [x]) = (case find P xs of None \<Rightarrow> (if P x then Some x else None) | Some y \<Rightarrow> Some y)"
  by (induction xs) simp_all

lemma tag_endpoints_map: "tag_endpoints ws eps = map (\<lambda>e. fold tag_endpoint ws e) eps"
  by (induction ws arbitrary: eps) (simp_all add: comp_def)

lemma position_fold_tag: "position (fold tag_endpoint ws e) = position e"
  by (induction ws arbitrary: e) (simp_all add: position_tag_endpoint)

text \<open>
  The tags after the second pass: the last wall that starts at the position, and the last
  wall that ends there without also starting there (the elif is not reached for a wall
  whose two ends are the position).
\<close>

lemma begins_fold_tag:
  "begins (fold tag_endpoint ws e) =
     (case find (\<lambda>w. wall_a w = position e) (rev ws) of
        None \<Rightarrow> begins e | Some w \<Rightarrow> Some (wall_id w))"
proof (induction ws arbitrary: e)
  case Nil
  then show ?case by simp
next
  case (Cons w ws)
  show ?case
    by (simp add: Cons find_snoc position_tag_endpoint)
      (simp add: tag_endpoint_def split: option.splits)
qed

lemma ends_fold_tag:
  "ends (fold tag_endpoint ws e) =
     (case find (\<lambda>w. wall_b w = position e \<and> wall_a w \<noteq> position e) (rev ws) of
        None \<Rightarrow> ends e | Some w \<Rightarrow> Some (wall_id w))"
proof (induction ws arbitrary: e)
  case Nil
  then show ?case by simp
next
  case (Cons w ws)
  show ?case
    by (simp add: Cons find_snoc position_tag_endpoint)
      (auto simp: tag_endpoint_def split: option.splits)
qed

lemma visit_endings_untagged:
  "visit_endings es (eps, visited, c) = (eps', visited', c') \<Longrightarrow>
   \<forall>e \<in> set eps. begins e = None \<and> ends e = None \<Longrightarrow>
     \<forall>e \<in> set eps'. begins e = None \<and> ends e = None"
proof (induction es arbitrary: eps visited c)
  case Nil
  then show ?case by simp
next
  case (Cons x es)
  show ?case
  proof (cases "x \<in> set visited")
    case True
    with Cons.prems have "visit_endings es (eps, visited, c) = (eps', visited', c')" by simp
    from Cons.IH [OF this Cons.prems(2)] show ?thesis .
  next
    case False
    with Cons.prems have
      "visit_endings es (eps @ [Endpoint (c + 1) (fst x) (snd x)], visited @ [x], c + 1)
         = (eps', visited', c')"
      by (simp add: new_id_def)
    from Cons.IH [OF this] Cons.prems(2) show ?thesis by (simp add: Endpoint_def)
  qed
qed

lemma find_endpoints_tags:
  assumes "e \<in> set (find_endpoints c ws)"
  shows "begins e = map_option wall_id (find (\<lambda>w. wall_a w = position e) (rev ws))"
    and "ends e = map_option wall_id
           (find (\<lambda>w. wall_b w = position e \<and> wall_a w \<noteq> position e) (rev ws))"
proof -
  obtain eps visited c' where v: "visit_endings (wall_endings ws) ([], [], c) = (eps, visited, c')"
    by (cases "visit_endings (wall_endings ws) ([], [], c)") auto
  from visit_endings_untagged [OF v] have u: "\<forall>e \<in> set eps. begins e = None \<and> ends e = None"
    by simp
  from assms v obtain e0 where e0: "e0 \<in> set eps" "e = fold tag_endpoint ws e0"
    by (auto simp: find_endpoints_def tag_endpoints_map)
  from e0 u have n: "begins e0 = None" "ends e0 = None" by auto
  from e0(2) have p: "position e = position e0" by (simp add: position_fold_tag)
  show "begins e = map_option wall_id (find (\<lambda>w. wall_a w = position e) (rev ws))"
    by (simp add: e0(2) begins_fold_tag position_fold_tag n split: option.splits)
  show "ends e = map_option wall_id
           (find (\<lambda>w. wall_b w = position e \<and> wall_a w \<noteq> position e) (rev ws))"
    by (simp add: e0(2) ends_fold_tag position_fold_tag n split: option.splits)
qed

lemma find_Some_set: "find P xs = Some x \<Longrightarrow> x \<in> set xs \<and> P x"
  by (induction xs) (auto split: if_splits)

lemma find_endpoints_begins:
  assumes "e \<in> set (find_endpoints c ws)"
  shows "begins e \<noteq> None \<longleftrightarrow> (\<exists>w \<in> set ws. wall_a w = position e)"
    and "begins e = Some i \<Longrightarrow> i \<in> wall_id ` set ws"
  using find_endpoints_tags(1) [OF assms]
  by (auto simp: find_None_iff dest!: find_Some_set)

lemma find_endpoints_ends:
  assumes "e \<in> set (find_endpoints c ws)"
  shows "ends e \<noteq> None \<longleftrightarrow> (\<exists>w \<in> set ws. wall_b w = position e \<and> wall_a w \<noteq> position e)"
    and "ends e = Some i \<Longrightarrow> i \<in> wall_id ` set ws"
  using find_endpoints_tags(2) [OF assms]
  by (auto simp: find_None_iff dest!: find_Some_set)

lemma keys_fold_update:
  "fst ` set (fold (\<lambda>w d. AList.update (wall_id w) w d) ws d) = fst ` set d \<union> wall_id ` set ws"
  by (induction ws arbitrary: d) (auto simp: AList.dom_update)

lemma keys_walls_dict: "fst ` set (walls_dict ws) = wall_id ` set ws"
  by (simp add: walls_dict_def keys_fold_update)

lemma lookup_wall_present:
  "(\<exists>w. lookup_wall d k = Inr w) \<longleftrightarrow> (\<exists>i. k = Some i \<and> i \<in> fst ` set d)"
proof (cases k)
  case None
  then show ?thesis by (simp add: lookup_wall_def)
next
  case (Some i)
  have "(map_of d i = None) = (i \<notin> fst ` set d)" by (rule map_of_eq_None_iff)
  with Some show ?thesis by (auto simp: lookup_wall_def split: option.splits)
qed

lemma find_endpoints_tagged:
  assumes "e \<in> set (find_endpoints c ws)"
  shows "tagged (walls_dict ws) e \<longleftrightarrow> begins e \<noteq> None \<and> ends e \<noteq> None"
  using find_endpoints_begins(2) [OF assms] find_endpoints_ends(2) [OF assms]
  by (auto simp: tagged_def lookup_wall_present keys_walls_dict)


lemma find_walls_parts:
  assumes "find_walls SCREEN_H SCREEN_W wall_count endpoint_count l = Inr l'"
  shows "\<exists>ws. build_walls SCREEN_H SCREEN_W wall_count (obstacles l) = Inr ws
           \<and> l' = l\<lparr>endpoints := find_endpoints endpoint_count ws, walls := walls_dict ws\<rparr>"
  using assms by (auto simp: find_walls_def split: sum.splits)

lemma cast_rays_loop_key_error:
  assumes "in_range g origin max_range e"
    and "not_blocked edge ed (begins e) (distance_2d g (position e) origin) = Inr True"
    and "\<not> tagged dict e"
  shows "cast_rays_loop g dict origin max_range (e # es) (rs, edge, ed) = Inl KeyError"
proof -
  from assms(3) lookup_wall_cases [of dict "ends e"] lookup_wall_cases [of dict "begins e"]
  have "lookup_wall dict (ends e) = Inl KeyError \<or> lookup_wall dict (begins e) = Inl KeyError"
    by (auto simp: tagged_def)
  from cast_endpoint_key_error [OF assms(1) assms(2) this] show ?thesis by simp
qed

lemma cast_endpoint_skipped:
  assumes "\<not> in_range g origin max_range e
     \<or> not_blocked edge ed (begins e) (distance_2d g (position e) origin) = Inr False"
  shows "cast_endpoint g dict origin max_range e (rs, edge, ed) = Inr (rs, edge, ed)"
proof (cases "in_range g origin max_range e")
  case True
  with assms cast_endpoint_blocked [OF True] show ?thesis by simp
next
  case False
  then show ?thesis by (rule cast_endpoint_out_of_range)
qed

lemma well_tagged_walls:
  assumes "\<forall>p \<in> set (wall_endings ws).
             (\<exists>w \<in> set ws. wall_a w = p) \<and> (\<exists>w \<in> set ws. wall_b w = p \<and> wall_a w \<noteq> p)"
    and "e \<in> set (find_endpoints c ws)"
  shows "tagged (walls_dict ws) e"
proof -
  from find_endpoints_positions [of c ws] assms(2)
  have "position e \<in> set (wall_endings ws)" by auto
  with assms(1) have "(\<exists>w \<in> set ws. wall_a w = position e)
      \<and> (\<exists>w \<in> set ws. wall_b w = position e \<and> wall_a w \<noteq> position e)" by blast
  with find_endpoints_begins(1) [OF assms(2)] find_endpoints_ends(1) [OF assms(2)]
    find_endpoints_tagged [OF assms(2)]
  show ?thesis by blast
qed

text \<open>The walls and the endpoints of a 100 by 100 screen with the one-point obstacle (1, 1).\<close>

lemma degenerate_endpoints:
  "find_endpoints 0
      [Wall 1 (100, 0) (100, 100), Wall 2 (100, 100) (0, 100), Wall 3 (0, 100) (0, 0),
       Wall 4 (0, 0) (100, 0), Wall 5 (1, 1) (1, 1)]
   = [\<lparr>endpoint_id = 1, position = (100, 0), begins = Some 1, ends = Some 4\<rparr>,
      \<lparr>endpoint_id = 2, position = (100, 100), begins = Some 2, ends = Some 1\<rparr>,
      \<lparr>endpoint_id = 3, position = (0, 100), begins = Some 3, ends = Some 2\<rparr>,
      \<lparr>endpoint_id = 4, position = (0, 0), begins = Some 4, ends = Some 3\<rparr>,
      \<lparr>endpoint_id = 5, position = (1, 1), begins = Some 5, ends = None\<rparr>]"
  by (simp add: find_endpoints_def wall_endings_def new_id_def Endpoint_def tag_endpoint_def)

text \<open>An endpoint in range whose wall ids are not both keys of the wall dict.\<close>

lemma cast_rays_loop_first_untagged:
  assumes "\<forall>e \<in> set eps. in_range g origin max_range e \<longrightarrow> \<not> tagged dict e"
    and "\<exists>e \<in> set eps. in_range g origin max_range e"
  shows "cast_rays_loop g dict origin max_range eps (rs, None, ed) = Inl KeyError"
  using assms
proof (induction eps)
  case Nil
  then show ?case by simp
next
  case (Cons e eps)
  show ?case
  proof (cases "in_range g origin max_range e")
    case True
    with Cons.prems(1) have "\<not> tagged dict e" by simp
    with True show ?thesis
      by (intro cast_rays_loop_key_error) (simp_all add: not_blocked_def)
  next
    case False
    with Cons.prems Cons.IH show ?thesis
      by (simp add: cast_endpoint_out_of_range)
  qed
qed

lemma update_light_first_untagged:
  assumes "\<forall>e \<in> set (endpoints l).
             in_range g (light_x l, light_y l) (power l) e \<longrightarrow> \<not> tagged (walls l) e"
    and "\<exists>e \<in> set (endpoints l). in_range g (light_x l, light_y l) (power l) e"
  shows "update_light g l = Inl KeyError"
proof -
  let ?eps = "sort_key (\<lambda>e. calculate_angle g (light_x l, light_y l) (position e)) (endpoints l)"
  from assms have "cast_rays_loop g (walls l) (light_x l, light_y l) (power l) ?eps ([], None, None)
      = Inl KeyError"
    by (intro cast_rays_loop_first_untagged) simp_all
  then show ?thesis by (simp add: update_light_def cast_rays_def Let_def)
qed

lemma degenerate_walls:
  "build_walls 100 100 0 [[(1, 1)]] =
     Inr [Wall 1 (100, 0) (100, 100), Wall 2 (100, 100) (0, 100), Wall 3 (0, 100) (0, 0),
          Wall 4 (0, 0) (100, 0), Wall 5 (1, 1) (1, 1)]"
  by (simp add: build_walls_def obstacle_walls_def borders_def new_id_def)

lemma degenerate_light:
  "find_walls 100 100 0 0 (new_light 1 2 (3 / 2) [[(1, 1)]]) =
     Inr ((new_light 1 2 (3 / 2) [[(1, 1)]])
       \<lparr>endpoints :=
          [\<lparr>endpoint_id = 1, position = (100, 0), begins = Some 1, ends = Some 4\<rparr>,
           \<lparr>endpoint_id = 2, position = (100, 100), begins = Some 2, ends = Some 1\<rparr>,
           \<lparr>endpoint_id = 3, position = (0, 100), begins = Some 3, ends = Some 2\<rparr>,
           \<lparr>endpoint_id = 4, position = (0, 0), begins = Some 4, ends = Some 3\<rparr>,
           \<lparr>endpoint_id = 5, position = (1, 1), begins = Some 5, ends = None\<rparr>],
        walls := walls_dict
          [Wall 1 (100, 0) (100, 100), Wall 2 (100, 100) (0, 100), Wall 3 (0, 100) (0, 0),
           Wall 4 (0, 0) (100, 0), Wall 5 (1, 1) (1, 1)]\<rparr>)"
proof -
  have o: "obstacles (new_light 1 2 (3 / 2) [[(1, 1)]]) = [[(1, 1)]]"
    by (simp add: new_light_def)
  show ?thesis
    unfolding find_walls_def by (simp only: o degenerate_walls degenerate_endpoints sum.case)
qed

lemma far_corners:
  "3 / 2 < sqrt 9805" "3 / 2 < sqrt 19405" "3 / 2 < sqrt 9605" "3 / 2 < sqrt 5"
  by (rule real_less_rsqrt, simp add: power2_eq_square)+

section \<open>A screen without obstacles\<close>

text \<open>The closed rectangle of the screen, and the screen without obstacles.\<close>

definition inside_area :: "real \<Rightarrow> real \<Rightarrow> point \<Rightarrow> bool" where
  "inside_area SCREEN_H SCREEN_W p \<longleftrightarrow>
     0 \<le> fst p \<and> fst p \<le> SCREEN_H \<and> 0 \<le> snd p \<and> snd p \<le> SCREEN_W"

definition border_walls :: "real \<Rightarrow> real \<Rightarrow> nat \<Rightarrow> wall list" where
  "border_walls SCREEN_H SCREEN_W wall_count =
     [Wall (wall_count + 1) (SCREEN_H, 0) (SCREEN_H, SCREEN_W),
      Wall (wall_count + 2) (SCREEN_H, SCREEN_W) (0, SCREEN_W),
      Wall (wall_count + 3) (0, SCREEN_W) (0, 0),
      Wall (wall_count + 4) (0, 0) (SCREEN_H, 0)]"

lemma build_walls_no_obstacles:
  "build_walls SCREEN_H SCREEN_W wall_count [] = Inr (border_walls SCREEN_H SCREEN_W wall_count)"
  by (simp add: build_walls_def borders_def new_id_def border_walls_def)

lemma border_walls_dict:
  "map snd (walls_dict (border_walls SCREEN_H SCREEN_W wall_count))
     = border_walls SCREEN_H SCREEN_W wall_count"
proof -
  have "distinct (map wall_id (border_walls SCREEN_H SCREEN_W wall_count))"
    by (simp add: border_walls_def)
  from walls_dict_distinct [OF this] show ?thesis by (simp add: comp_def)
qed

lemma border_endings:
  assumes "SCREEN_H \<noteq> 0" and "SCREEN_W \<noteq> 0"
  shows "\<forall>p \<in> set (wall_endings (border_walls SCREEN_H SCREEN_W wall_count)).
           (\<exists>w \<in> set (border_walls SCREEN_H SCREEN_W wall_count). wall_a w = p)
           \<and> (\<exists>w \<in> set (border_walls SCREEN_H SCREEN_W wall_count). wall_b w = p \<and> wall_a w \<noteq> p)"
  using assms by (simp add: wall_endings_def border_walls_def)

lemma border_positions:
  assumes "SCREEN_H \<noteq> 0" and "SCREEN_W \<noteq> 0"
  shows "map position (find_endpoints c (border_walls SCREEN_H SCREEN_W wall_count))
           = [(SCREEN_H, 0), (SCREEN_H, SCREEN_W), (0, SCREEN_W), (0, 0)]"
  using assms
  by (simp add: find_endpoints_def wall_endings_def border_walls_def new_id_def Endpoint_def
      position_tag_endpoint)

lemma border_not_crossed:
  assumes "inside_area SCREEN_H SCREEN_W p" and "inside_area SCREEN_H SCREEN_W q"
    and "w \<in> set (border_walls SCREEN_H SCREEN_W wall_count)"
  shows "\<not> crosses (p, q) (wall_line w)"
proof -
  from assms(1) have p: "0 \<le> fst p" "fst p \<le> SCREEN_H" "0 \<le> snd p" "snd p \<le> SCREEN_W"
    by (simp_all add: inside_area_def)
  from assms(2) have q: "0 \<le> fst q" "fst q \<le> SCREEN_H" "0 \<le> snd q" "snd q \<le> SCREEN_W"
    by (simp_all add: inside_area_def)
  from assms(3) consider
      "wall_line w = ((SCREEN_H, 0), (SCREEN_H, SCREEN_W))"
    | "wall_line w = ((SCREEN_H, SCREEN_W), (0, SCREEN_W))"
    | "wall_line w = ((0, SCREEN_W), (0, 0))"
    | "wall_line w = ((0, 0), (SCREEN_H, 0))"
    by (auto simp: border_walls_def wall_line_def)
  then show ?thesis
  proof cases
    case 1
    have "get_direction (SCREEN_H, 0) (SCREEN_H, SCREEN_W) p = (fst p - SCREEN_H) * SCREEN_W"
      "get_direction (SCREEN_H, 0) (SCREEN_H, SCREEN_W) q = (fst q - SCREEN_H) * SCREEN_W"
      by (simp_all add: get_direction_expand)
    moreover have "\<not> ((fst p - SCREEN_H) * SCREEN_W > 0 \<and> 0 > (fst q - SCREEN_H) * SCREEN_W)"
      "\<not> ((fst p - SCREEN_H) * SCREEN_W < 0 \<and> 0 < (fst q - SCREEN_H) * SCREEN_W)"
      using p q by (auto simp: zero_less_mult_iff mult_less_0_iff)
    ultimately show ?thesis using 1 by (simp add: crosses_directions)
  next
    case 2
    have "get_direction (SCREEN_H, SCREEN_W) (0, SCREEN_W) p = (snd p - SCREEN_W) * SCREEN_H"
      "get_direction (SCREEN_H, SCREEN_W) (0, SCREEN_W) q = (snd q - SCREEN_W) * SCREEN_H"
      by (simp_all add: get_direction_expand algebra_simps)
    moreover have "\<not> ((snd p - SCREEN_W) * SCREEN_H > 0 \<and> 0 > (snd q - SCREEN_W) * SCREEN_H)"
      "\<not> ((snd p - SCREEN_W) * SCREEN_H < 0 \<and> 0 < (snd q - SCREEN_W) * SCREEN_H)"
      using p q by (auto simp: zero_less_mult_iff mult_less_0_iff)
    ultimately show ?thesis using 2 by (simp add: crosses_directions)
  next
    case 3
    have "get_direction (0, SCREEN_W) (0, 0) p = - (fst p * SCREEN_W)"
      "get_direction (0, SCREEN_W) (0, 0) q = - (fst q * SCREEN_W)"
      by (simp_all add: get_direction_expand algebra_simps)
    moreover have "\<not> (- (fst p * SCREEN_W) > 0 \<and> 0 > - (fst q * SCREEN_W))"
      "\<not> (- (fst p * SCREEN_W) < 0 \<and> 0 < - (fst q * SCREEN_W))"
      using p q by (auto simp: zero_less_mult_iff mult_less_0_iff)
    ultimately show ?thesis using 3 by (simp add: crosses_directions)
  next
    case 4
    have "get_direction (0, 0) (SCREEN_H, 0) p = - (snd p * SCREEN_H)"
      "get_direction (0, 0) (SCREEN_H, 0) q = - (snd q * SCREEN_H)"
      by (simp_all add: get_direction_expand algebra_simps)
    moreover have "\<not> (- (snd p * SCREEN_H) > 0 \<and> 0 > - (snd q * SCREEN_H))"
      "\<not> (- (snd p * SCREEN_H) < 0 \<and> 0 < - (snd q * SCREEN_H))"
      using p q by (auto simp: zero_less_mult_iff mult_less_0_iff)
    ultimately show ?thesis using 4 by (simp add: crosses_directions)
  qed
qed


lemma no_obstacles_light:
  assumes "obstacles l = []"
  shows "find_walls SCREEN_H SCREEN_W wall_count endpoint_count l =
     Inr (l\<lparr>endpoints := find_endpoints endpoint_count (border_walls SCREEN_H SCREEN_W wall_count),
            walls := walls_dict (border_walls SCREEN_H SCREEN_W wall_count)\<rparr>)"
  using assms by (simp add: find_walls_def build_walls_no_obstacles)

lemma uncrossed_ray_survives:
  assumes "resolve_rays origin ws rs [] [] = Inr res" and "r \<in> set rs"
    and "\<forall>w \<in> set ws. \<not> crosses (ray_a r, ray_b r) (wall_line w)"
  shows "r \<in> set (final_rays g origin (fst res) (snd res))"
proof -
  from resolve_rays_invariant [OF assms(1) resolved_empty]
  have inv: "resolved origin ws [] (fst res) (snd res)" and sub: "set rs \<subseteq> set (fst res)"
    by simp_all
  from assms(3) have "colliding_wall ws r = None"
    by (simp add: colliding_wall_None collides_def)
  with inv have "r \<notin> set (snd res)" by (simp add: resolved_def)
  with sub assms(2) show ?thesis by (auto simp: final_rays_set)
qed

lemma no_obstacles_update:
  assumes "obstacles l = []" and "SCREEN_H \<noteq> 0" and "SCREEN_W \<noteq> 0"
  shows "\<exists>l1 l2. find_walls SCREEN_H SCREEN_W wall_count endpoint_count l = Inr l1
           \<and> update_light g l1 = Inr l2"
proof -
  let ?bw = "border_walls SCREEN_H SCREEN_W wall_count"
  let ?l1 = "l\<lparr>endpoints := find_endpoints endpoint_count ?bw, walls := walls_dict ?bw\<rparr>"
  have "\<forall>e \<in> set (sort_key (\<lambda>e. calculate_angle g (light_x ?l1, light_y ?l1) (position e))
                     (endpoints ?l1)).
          in_range g (light_x ?l1, light_y ?l1) (power ?l1) e \<longrightarrow> tagged (walls ?l1) e"
    using well_tagged_walls [OF border_endings [OF assms(2) assms(3)]] by simp
  from cast_rays_returns [OF this] obtain rs where "cast_rays g (walls ?l1)
      (sort_key (\<lambda>e. calculate_angle g (light_x ?l1, light_y ?l1) (position e)) (endpoints ?l1))
      (light_x ?l1, light_y ?l1) (power ?l1) = Inr rs" by blast
  from update_light_returns [OF this] no_obstacles_light [OF assms(1)] show ?thesis by blast
qed

lemma dark_light:
  assumes "\<forall>e \<in> set (endpoints l). \<not> in_range g (light_x l, light_y l) (power l) e"
  shows "update_light g l =
     Inr (l\<lparr>endpoints := sort_key (\<lambda>e. calculate_angle g (light_x l, light_y l) (position e))
                             (endpoints l),
            rays := [], light_polygon := []\<rparr>)"
proof -
  from assms have "cast_rays g (walls l)
      (sort_key (\<lambda>e. calculate_angle g (light_x l, light_y l) (position e)) (endpoints l))
      (light_x l, light_y l) (power l) = Inr []"
    by (intro cast_rays_out_of_range) simp
  then show ?thesis by (simp add: update_light_def Let_def final_rays_def)
qed

section \<open>The workaround ray\<close>

lemma cast_endpoint_count:
  assumes "cast_endpoint g ws origin max_range e (rs, edge, ed) = Inr (rs', edge', ed')"
    and "rs' \<noteq> rs" and "four_tuples rs"
  shows "count_list rs' (workaround origin) = Suc (count_list rs (workaround origin))"
proof -
  from cast_endpoint_cases [OF assms(1)] assms(2) obtain wb we
    where b: "lookup_wall ws (begins e) = Inr wb"
      and r: "rs' = append_workaround origin (rs @ emitted g origin max_range e wb we)"
    by blast
  from lookup_wall_Some [OF b] have "begins e \<noteq> None" .
  from count_emitted [OF this, of g origin max_range wb we]
  have "count_list (emitted g origin max_range e wb we) (workaround origin) = 0" .
  moreover from r assms(3)
  have "rs' = (rs @ emitted g origin max_range e wb we) @ [workaround origin]"
    by (simp add: append_workaround_four_tuples four_tuples_emitted)
  ultimately show ?thesis by simp
qed

lemma corner_angles:
  "polar_angle (50, 50) (100, 100) = pi / 4"
  "polar_angle (50, 50) (0, 100) = 3 * pi / 4"
  "polar_angle (50, 50) (0, 0) = 5 * pi / 4"
  "polar_angle (50, 50) (100, 0) = 7 * pi / 4"
  by (simp_all add: polar_angle_def arctan_minus arctan_one)


text \<open>
  The default scene: a 100 by 100 screen without obstacles, the light at its centre with
  the default power 1500, evaluated in the plane geometry.
\<close>

lemma scene_endpoints:
  "find_endpoints 0 (border_walls 100 100 0) =
     [\<lparr>endpoint_id = 1, position = (100, 0), begins = Some 1, ends = Some 4\<rparr>,
      \<lparr>endpoint_id = 2, position = (100, 100), begins = Some 2, ends = Some 1\<rparr>,
      \<lparr>endpoint_id = 3, position = (0, 100), begins = Some 3, ends = Some 2\<rparr>,
      \<lparr>endpoint_id = 4, position = (0, 0), begins = Some 4, ends = Some 3\<rparr>]"
  by (simp add: find_endpoints_def wall_endings_def border_walls_def new_id_def Endpoint_def
      tag_endpoint_def)

lemma scene_lookups:
  "lookup_wall (walls_dict (border_walls 100 100 0)) (Some 1) = Inr (Wall 1 (100, 0) (100, 100))"
  "lookup_wall (walls_dict (border_walls 100 100 0)) (Some 2) = Inr (Wall 2 (100, 100) (0, 100))"
  "lookup_wall (walls_dict (border_walls 100 100 0)) (Some 3) = Inr (Wall 3 (0, 100) (0, 0))"
  "lookup_wall (walls_dict (border_walls 100 100 0)) (Some 4) = Inr (Wall 4 (0, 0) (100, 0))"
  by (simp_all add: lookup_wall_def walls_dict_def border_walls_def)

lemma scene_sorted:
  "sort_key (\<lambda>e. polar_angle (50, 50) (position e))
     [\<lparr>endpoint_id = 1, position = (100, 0), begins = Some 1, ends = Some 4\<rparr>,
      \<lparr>endpoint_id = 2, position = (100, 100), begins = Some 2, ends = Some 1\<rparr>,
      \<lparr>endpoint_id = 3, position = (0, 100), begins = Some 3, ends = Some 2\<rparr>,
      \<lparr>endpoint_id = 4, position = (0, 0), begins = Some 4, ends = Some 3\<rparr>]
   = [\<lparr>endpoint_id = 2, position = (100, 100), begins = Some 2, ends = Some 1\<rparr>,
      \<lparr>endpoint_id = 3, position = (0, 100), begins = Some 3, ends = Some 2\<rparr>,
      \<lparr>endpoint_id = 4, position = (0, 0), begins = Some 4, ends = Some 3\<rparr>,
      \<lparr>endpoint_id = 1, position = (100, 0), begins = Some 1, ends = Some 4\<rparr>]"
  using pi_gt_zero by (simp add: corner_angles)

lemma scene_distances:
  "euclidean_distance (50, 50) (100, 0) = sqrt 5000"
  "euclidean_distance (50, 50) (100, 100) = sqrt 5000"
  "euclidean_distance (50, 50) (0, 100) = sqrt 5000"
  "euclidean_distance (50, 50) (0, 0) = sqrt 5000"
  "euclidean_distance (100, 0) (50, 50) = sqrt 5000"
  "euclidean_distance (100, 100) (50, 50) = sqrt 5000"
  "euclidean_distance (0, 100) (50, 50) = sqrt 5000"
  "euclidean_distance (0, 0) (50, 50) = sqrt 5000"
  by (simp_all add: euclidean_distance_def power2_eq_square)

lemma scene_in_range: "\<not> 1500 < sqrt 5000"
proof -
  have "sqrt 5000 \<le> 1500" by (rule real_le_lsqrt) simp_all
  then show ?thesis by simp
qed


lemma emitted_step:
  assumes "in_range g origin max_range e"
    and "not_blocked edge ed (begins e) (distance_2d g (position e) origin) = Inr True"
    and "lookup_wall ws (ends e) = Inr we" and "lookup_wall ws (begins e) = Inr wb"
    and "four_tuples rs"
  shows "\<exists>rs'. cast_endpoint g ws origin max_range e (rs, edge, ed) =
           Inr (rs',
                if calculate_angle g origin (wall_a we) > calculate_angle g origin (position e)
                then ends e else None,
                if calculate_angle g origin (wall_a we) > calculate_angle g origin (position e)
                then Some (max (distance_2d g (position e) origin)
                               (distance_2d g (wall_a we) origin))
                else ed)
         \<and> four_tuples rs'
         \<and> count_list rs' (workaround origin) = Suc (count_list rs (workaround origin))"
proof -
  let ?rs' = "append_workaround origin (rs @ emitted g origin max_range e wb we)"
  from cast_endpoint_emits [OF assms(1-4), of rs]
  have c: "cast_endpoint g ws origin max_range e (rs, edge, ed) =
           Inr (?rs',
                if calculate_angle g origin (wall_a we) > calculate_angle g origin (position e)
                then ends e else None,
                if calculate_angle g origin (wall_a we) > calculate_angle g origin (position e)
                then Some (max (distance_2d g (position e) origin)
                               (distance_2d g (wall_a we) origin))
                else ed)"
    by auto
  have e: "?rs' = (rs @ emitted g origin max_range e wb we) @ [workaround origin]"
    using assms(5) by (simp add: append_workaround_four_tuples four_tuples_emitted)
  from lookup_wall_Some [OF assms(4)] have "begins e \<noteq> None" .
  from count_emitted [OF this, of g origin max_range wb we] e
  have n: "count_list ?rs' (workaround origin) = Suc (count_list rs (workaround origin))"
    by simp
  from e assms(5) have "four_tuples ?rs'" by (simp add: four_tuples_emitted)
  with c n show ?thesis by blast
qed

lemma scene_cast:
  "\<exists>rs. cast_rays plane_geometry (walls_dict (border_walls 100 100 0))
          (sort_key (\<lambda>e. calculate_angle plane_geometry (50, 50) (position e))
             (find_endpoints 0 (border_walls 100 100 0)))
          (50, 50) 1500 = Inr rs
     \<and> count_list rs (workaround (50, 50)) = 2"
proof -
  let ?g = plane_geometry and ?d = "walls_dict (border_walls 100 100 0)"
  let ?E1 = "\<lparr>endpoint_id = 1, position = (100, 0), begins = Some 1, ends = Some 4\<rparr>"
  let ?E2 = "\<lparr>endpoint_id = 2, position = (100, 100), begins = Some 2, ends = Some 1\<rparr>"
  let ?E3 = "\<lparr>endpoint_id = 3, position = (0, 100), begins = Some 3, ends = Some 2\<rparr>"
  let ?E4 = "\<lparr>endpoint_id = 4, position = (0, 0), begins = Some 4, ends = Some 3\<rparr>"
  let ?far = "Some (sqrt 5000)"
  have g: "distance_2d ?g = euclidean_distance" "calculate_angle ?g = polar_angle"
    by (simp_all add: plane_geometry_def)
  have eps: "sort_key (\<lambda>e. calculate_angle ?g (50, 50) (position e))
      (find_endpoints 0 (border_walls 100 100 0)) = [?E2, ?E3, ?E4, ?E1]"
    by (simp only: g scene_endpoints scene_sorted)
  have rng: "in_range ?g (50, 50) 1500 ?E1" "in_range ?g (50, 50) 1500 ?E2"
    "in_range ?g (50, 50) 1500 ?E3" "in_range ?g (50, 50) 1500 ?E4"
    by (simp_all add: in_range_def g scene_distances scene_in_range)
  have "\<exists>rs. cast_endpoint ?g ?d (50, 50) 1500 ?E2 ([], None, None) = Inr (rs, Some 1, ?far)
          \<and> four_tuples rs \<and> count_list rs (workaround (50, 50)) = 1"
    using emitted_step [OF rng(2), of None None ?d "Wall 1 (100, 0) (100, 100)"
        "Wall 2 (100, 100) (0, 100)" "[]"] scene_lookups pi_gt_zero
    by (simp add: not_blocked_def g corner_angles scene_distances four_tuples_def)
  then obtain rs1
    where s2: "cast_endpoint ?g ?d (50, 50) 1500 ?E2 ([], None, None) = Inr (rs1, Some 1, ?far)"
      and f1: "four_tuples rs1" and n1: "count_list rs1 (workaround (50, 50)) = 1"
    by blast
  have s3: "cast_endpoint ?g ?d (50, 50) 1500 ?E3 (rs1, Some 1, ?far) = Inr (rs1, Some 1, ?far)"
    by (rule cast_endpoint_blocked [OF rng(3)]) (simp add: not_blocked_def g scene_distances)
  have s4: "cast_endpoint ?g ?d (50, 50) 1500 ?E4 (rs1, Some 1, ?far) = Inr (rs1, Some 1, ?far)"
    by (rule cast_endpoint_blocked [OF rng(4)]) (simp add: not_blocked_def g scene_distances)
  have "\<exists>rs edge ed. cast_endpoint ?g ?d (50, 50) 1500 ?E1 (rs1, Some 1, ?far) = Inr (rs, edge, ed)
          \<and> count_list rs (workaround (50, 50)) = Suc (Suc 0)"
    using emitted_step [OF rng(1), of "Some 1" ?far ?d "Wall 4 (0, 0) (100, 0)"
        "Wall 1 (100, 0) (100, 100)" rs1] scene_lookups f1 n1
    by (simp add: not_blocked_def) blast
  then obtain rs4 edge4 ed4
    where s1: "cast_endpoint ?g ?d (50, 50) 1500 ?E1 (rs1, Some 1, ?far) = Inr (rs4, edge4, ed4)"
      and n4: "count_list rs4 (workaround (50, 50)) = 2"
    by (auto simp: numeral_2_eq_2)
  have "cast_rays_loop ?g ?d (50, 50) 1500 [?E2, ?E3, ?E4, ?E1] ([], None, None)
      = Inr (rs4, edge4, ed4)"
    using s2 s3 s4 s1 by simp
  with n4 show ?thesis by (simp only: eps cast_rays_def sum.case fst_conv) simp
qed


lemma resolve_rays_count:
  "resolve_rays origin ws pending seen cr = Inr res \<Longrightarrow>
     count_list (fst res) (Ray4 p q r3 r4)
       = count_list seen (Ray4 p q r3 r4) + count_list pending (Ray4 p q r3 r4)"
proof (induction origin ws pending seen cr rule: resolve_rays.induct)
  case (1 origin ws seen cr)
  then show ?case by auto
next
  case (2 origin ws ray pending seen cr)
  show ?case
  proof (cases "colliding_wall ws ray")
    case None
    with 2(1) 2(3) show ?thesis by simp
  next
    case (Some w)
    from collision_intersection [OF Some] obtain i
      where i: "get_intersection (ray_a ray) (ray_b ray) (wall_a w) (wall_b w) = Inr i" by blast
    from 2(3) Some i have
      "resolve_rays origin ws (pending @ [Ray2 origin i]) (seen @ [ray]) (cr @ [ray]) = Inr res"
      by simp
    from 2(2) [OF Some i this] show ?thesis by simp
  qed
qed

lemma count_list_filter:
  "count_list (filter P xs) x = (if P x then count_list xs x else 0)"
  by (induction xs) auto

lemma count_final_rays:
  "ray \<notin> set cr \<Longrightarrow> count_list (final_rays g origin rs cr) ray = count_list rs ray"
  by (simp add: final_rays_def count_list_sort_key count_list_filter)

section \<open>Closed obstacle polygons\<close>

text \<open>The edges of a closed polygon, as obstacle_walls lists them.\<close>

lemma obstacle_walls_ends:
  assumes "obstacle_walls ps = Inr es" and "(x, y) \<in> set es"
  shows "x \<in> set ps \<and> y \<in> set ps"
proof -
  from assms(1) have ne: "ps \<noteq> []" by (auto simp: obstacle_walls_empty)
  from obstacle_walls_nonempty [OF ne] assms
  have "(x, y) \<in> set (map (\<lambda>i. (ps ! i, ps ! (i + 1))) [0..<length ps - 1])
      \<or> (x, y) = (last ps, hd ps)" by auto
  then show ?thesis
  proof
    assume "(x, y) \<in> set (map (\<lambda>i. (ps ! i, ps ! (i + 1))) [0..<length ps - 1])"
    then obtain i where "i < length ps - 1" "x = ps ! i" "y = ps ! (i + 1)" by auto
    then show ?thesis by auto
  next
    assume "(x, y) = (last ps, hd ps)"
    with ne show ?thesis by simp
  qed
qed

lemma consecutive_edge:
  assumes "obstacle_walls ps = Inr es" and "i + 1 < length ps"
  shows "(ps ! i, ps ! (i + 1)) \<in> set es"
proof -
  from assms(2) have ne: "ps \<noteq> []" by auto
  let ?m = "map (\<lambda>i. (ps ! i, ps ! (i + 1))) [0..<length ps - 1]"
  from obstacle_walls_nonempty [OF ne] assms(1) have e: "es = ?m @ [(last ps, hd ps)]" by simp
  from assms(2) have lt: "i < length ps - 1" by simp
  then have "i < length ?m" "?m ! i = (ps ! i, ps ! (i + 1))" by simp_all
  then have "(ps ! i, ps ! (i + 1)) \<in> set ?m" using nth_mem [of i ?m] by simp
  then show ?thesis by (simp only: e set_append Un_iff) simp
qed

lemma closing_edge:
  assumes "obstacle_walls ps = Inr es"
  shows "(last ps, hd ps) \<in> set es"
proof -
  from assms have ne: "ps \<noteq> []" by (auto simp: obstacle_walls_empty)
  from obstacle_walls_nonempty [OF ne] assms show ?thesis by auto
qed

lemma obstacle_walls_from:
  assumes "obstacle_walls ps = Inr es" and "p \<in> set ps"
  shows "\<exists>y. (p, y) \<in> set es"
proof -
  from assms(2) have ne: "ps \<noteq> []" by auto
  from assms(2) obtain i where i: "i < length ps" "ps ! i = p" by (auto simp: in_set_conv_nth)
  show ?thesis
  proof (cases "i + 1 < length ps")
    case True
    from consecutive_edge [OF assms(1) True] i(2) show ?thesis by blast
  next
    case False
    with i(1) have "i = length ps - 1" by simp
    with i(2) ne have "last ps = p" by (simp add: last_conv_nth)
    with closing_edge [OF assms(1)] show ?thesis by blast
  qed
qed

lemma step_into:
  "p \<in> set ps \<Longrightarrow> hd ps = p \<or> (\<exists>i. i + 1 < length ps \<and> ps ! i \<noteq> p \<and> ps ! (i + 1) = p)"
proof (induction ps)
  case Nil
  then show ?case by simp
next
  case (Cons a ps)
  show ?case
  proof (cases "a = p")
    case True
    then show ?thesis by simp
  next
    case False
    with Cons.prems have m: "p \<in> set ps" by simp
    from Cons.IH [OF m] show ?thesis
    proof
      assume "hd ps = p"
      with m False have "0 + 1 < length (a # ps) \<and> (a # ps) ! 0 \<noteq> p \<and> (a # ps) ! (0 + 1) = p"
        by (cases ps) auto
      then show ?thesis by blast
    next
      assume "\<exists>i. i + 1 < length ps \<and> ps ! i \<noteq> p \<and> ps ! (i + 1) = p"
      then obtain i where "i + 1 < length ps" "ps ! i \<noteq> p" "ps ! (i + 1) = p" by blast
      then have "Suc i + 1 < length (a # ps) \<and> (a # ps) ! Suc i \<noteq> p \<and> (a # ps) ! (Suc i + 1) = p"
        by simp
      then show ?thesis by blast
    qed
  qed
qed

lemma step_into_last:
  "last ps = p \<Longrightarrow> q \<in> set ps \<Longrightarrow> q \<noteq> p \<Longrightarrow>
     \<exists>i. i + 1 < length ps \<and> ps ! i \<noteq> p \<and> ps ! (i + 1) = p"
proof (induction ps arbitrary: q)
  case Nil
  then show ?case by simp
next
  case (Cons a ps)
  from Cons.prems have ne: "ps \<noteq> []" by auto
  with Cons.prems(1) have l: "last ps = p" by simp
  show ?case
  proof (cases "\<exists>q' \<in> set ps. q' \<noteq> p")
    case True
    then obtain q' where "q' \<in> set ps" "q' \<noteq> p" by blast
    from Cons.IH [OF l \<open>q' \<in> set ps\<close> \<open>q' \<noteq> p\<close>] obtain i where "i + 1 < length ps" "ps ! i \<noteq> p" "ps ! (i + 1) = p"
      by blast
    then have "Suc i + 1 < length (a # ps) \<and> (a # ps) ! Suc i \<noteq> p \<and> (a # ps) ! (Suc i + 1) = p"
      by simp
    then show ?thesis by blast
  next
    case False
    with Cons.prems have a: "a \<noteq> p" by auto
    from False ne have "hd ps = p" by (cases ps) auto
    with a ne have "0 + 1 < length (a # ps) \<and> (a # ps) ! 0 \<noteq> p \<and> (a # ps) ! (0 + 1) = p"
      by (cases ps) auto
    then show ?thesis by blast
  qed
qed

lemma obstacle_walls_into:
  assumes "obstacle_walls ps = Inr es" and "p \<in> set ps" and "q \<in> set ps" and "q \<noteq> p"
  shows "\<exists>x. (x, p) \<in> set es \<and> x \<noteq> p"
proof -
  have inner: "\<exists>x. (x, p) \<in> set es \<and> x \<noteq> p"
    if "\<exists>i. i + 1 < length ps \<and> ps ! i \<noteq> p \<and> ps ! (i + 1) = p"
  proof -
    from that obtain i where i: "i + 1 < length ps" "ps ! i \<noteq> p" "ps ! (i + 1) = p" by blast
    from consecutive_edge [OF assms(1) i(1)] i(2) i(3) show ?thesis
      by (intro exI [of _ "ps ! i"]) simp
  qed
  from step_into [OF assms(2)] show ?thesis
  proof
    assume h: "hd ps = p"
    show ?thesis
    proof (cases "last ps = p")
      case True
      from inner [OF step_into_last [OF True assms(3) assms(4)]] show ?thesis .
    next
      case False
      with h closing_edge [OF assms(1)] show ?thesis
        by (intro exI [of _ "last ps"]) simp
    qed
  next
    assume "\<exists>i. i + 1 < length ps \<and> ps ! i \<noteq> p \<and> ps ! (i + 1) = p"
    from inner [OF this] show ?thesis .
  qed
qed


lemma collect_walls_set:
  "collect_walls obs ws0 = Inr ws' \<Longrightarrow>
     s \<in> set ws' \<longleftrightarrow>
       s \<in> set ws0 \<or> (\<exists>ps \<in> set obs. \<exists>es. obstacle_walls ps = Inr es \<and> s \<in> set es)"
proof (induction obs arbitrary: ws0)
  case Nil
  then show ?case by simp
next
  case (Cons ps obs)
  from Cons.prems obtain es where es: "obstacle_walls ps = Inr es"
    and r: "collect_walls obs (ws0 @ es) = Inr ws'"
    by (auto split: sum.splits)
  from Cons.IH [OF r] es show ?case by auto
qed

lemma border_segments:
  assumes "SCREEN_H \<noteq> 0" and "SCREEN_W \<noteq> 0"
    and "(a, b) \<in> set (borders SCREEN_H SCREEN_W)" and "p = a \<or> p = b"
  shows "(\<exists>y. (p, y) \<in> set (borders SCREEN_H SCREEN_W))
       \<and> (\<exists>x. (x, p) \<in> set (borders SCREEN_H SCREEN_W) \<and> x \<noteq> p)"
  using assms by (auto simp: borders_def)

lemma wall_of_segment:
  "(x, y) \<in> set segs \<Longrightarrow> \<exists>w \<in> set (make_walls c segs). wall_a w = x \<and> wall_b w = y"
proof -
  assume "(x, y) \<in> set segs"
  then have "(x, y) \<in> set (map wall_line (make_walls c segs))" by (simp only: make_walls_lines)
  then show ?thesis by (auto simp: wall_line_def)
qed

lemma segment_of_wall:
  "w \<in> set (make_walls c segs) \<Longrightarrow> (wall_a w, wall_b w) \<in> set segs"
proof -
  assume "w \<in> set (make_walls c segs)"
  then have "wall_line w \<in> set (map wall_line (make_walls c segs))" by simp
  then show ?thesis by (simp only: make_walls_lines wall_line_def)
qed

lemma built_walls_endings:
  assumes "SCREEN_H \<noteq> 0" and "SCREEN_W \<noteq> 0"
    and "\<forall>ps \<in> set obs. \<exists>p \<in> set ps. \<exists>q \<in> set ps. p \<noteq> q"
  shows "\<exists>ws. build_walls SCREEN_H SCREEN_W wall_count obs = Inr ws
           \<and> (\<forall>p \<in> set (wall_endings ws).
                 (\<exists>w \<in> set ws. wall_a w = p) \<and> (\<exists>w \<in> set ws. wall_b w = p \<and> wall_a w \<noteq> p))"
proof -
  from assms(3) have "\<forall>ps \<in> set obs. ps \<noteq> []" by auto
  from collect_walls_length [OF this, of "borders SCREEN_H SCREEN_W"]
  obtain segs where segs: "collect_walls obs (borders SCREEN_H SCREEN_W) = Inr segs" by blast
  let ?ws = "make_walls wall_count segs"
  have bw: "build_walls SCREEN_H SCREEN_W wall_count obs = Inr ?ws"
    by (simp add: build_walls_def segs)
  have "(\<exists>w \<in> set ?ws. wall_a w = p) \<and> (\<exists>w \<in> set ?ws. wall_b w = p \<and> wall_a w \<noteq> p)"
    if "p \<in> set (wall_endings ?ws)" for p
  proof -
    from that obtain w where w: "w \<in> set ?ws" "p = wall_a w \<or> p = wall_b w"
      by (auto simp: wall_endings_def)
    from segment_of_wall [OF w(1)] have m: "(wall_a w, wall_b w) \<in> set segs" .
    have "(\<exists>y. (p, y) \<in> set segs) \<and> (\<exists>x. (x, p) \<in> set segs \<and> x \<noteq> p)"
    proof (cases "(wall_a w, wall_b w) \<in> set (borders SCREEN_H SCREEN_W)")
      case True
      from border_segments [OF assms(1) assms(2) True w(2)] collect_walls_set [OF segs]
      show ?thesis by blast
    next
      case False
      with m collect_walls_set [OF segs] obtain ps es
        where ps: "ps \<in> set obs" "obstacle_walls ps = Inr es" "(wall_a w, wall_b w) \<in> set es"
        by blast
      from obstacle_walls_ends [OF ps(2) ps(3)] w(2) have p: "p \<in> set ps" by auto
      from assms(3) ps(1) obtain q1 q2 where "q1 \<in> set ps" "q2 \<in> set ps" "q1 \<noteq> q2" by blast
      then obtain q where q: "q \<in> set ps" "q \<noteq> p" by (cases "q1 = p") auto
      from obstacle_walls_from [OF ps(2) p] obstacle_walls_into [OF ps(2) p q]
        collect_walls_set [OF segs] ps(1) ps(2)
      show ?thesis by blast
    qed
    then obtain y x where "(p, y) \<in> set segs" "(x, p) \<in> set segs" "x \<noteq> p" by blast
    with wall_of_segment [of p y segs wall_count] wall_of_segment [of x p segs wall_count]
    show ?thesis by auto
  qed
  with bw show ?thesis by blast
qed

lemma well_formed_update:
  assumes "SCREEN_H \<noteq> 0" and "SCREEN_W \<noteq> 0"
    and "\<forall>ps \<in> set (obstacles l). \<exists>p \<in> set ps. \<exists>q \<in> set ps. p \<noteq> q"
  shows "\<exists>l'. light_then_update g SCREEN_H SCREEN_W wall_count endpoint_count l = Inr l'"
proof -
  from built_walls_endings [OF assms, of wall_count] obtain ws
    where bw: "build_walls SCREEN_H SCREEN_W wall_count (obstacles l) = Inr ws"
      and e: "\<forall>p \<in> set (wall_endings ws).
                 (\<exists>w \<in> set ws. wall_a w = p) \<and> (\<exists>w \<in> set ws. wall_b w = p \<and> wall_a w \<noteq> p)"
    by blast
  let ?l1 = "l\<lparr>endpoints := find_endpoints endpoint_count ws, walls := walls_dict ws\<rparr>"
  have fw: "find_walls SCREEN_H SCREEN_W wall_count endpoint_count l = Inr ?l1"
    by (simp add: find_walls_def bw)
  have "\<forall>e \<in> set (sort_key (\<lambda>e. calculate_angle g (light_x ?l1, light_y ?l1) (position e))
                     (endpoints ?l1)).
          in_range g (light_x ?l1, light_y ?l1) (power ?l1) e \<longrightarrow> tagged (walls ?l1) e"
    using well_tagged_walls [OF e] by simp
  from cast_rays_returns [OF this] obtain rs where "cast_rays g (walls ?l1)
      (sort_key (\<lambda>e. calculate_angle g (light_x ?l1, light_y ?l1) (position e)) (endpoints ?l1))
      (light_x ?l1, light_y ?l1) (power ?l1) = Inr rs" by blast
  from update_light_returns [OF this] fw show ?thesis
    by (simp add: light_then_update_def)
qed

section \<open>The claims\<close>



text \<open>
  C2. When update_light returns, the final rays are the rays visited by the resolver that
  did not collide, sorted in ascending order of the angle of their target around the origin;
  the polygon is the list of their targets in that order, so the angles of its vertices are
  non-decreasing.
\<close>

theorem polygon_sorted_by_angle:
  assumes "update_light g l = Inr l'"
  shows "(\<exists>rs res.
           cast_rays g (walls l)
             (sort_key (\<lambda>e. calculate_angle g (light_x l, light_y l) (position e)) (endpoints l))
             (light_x l, light_y l) (power l) = Inr rs
         \<and> resolve_rays (light_x l, light_y l)
             (sort_walls g (light_x l, light_y l) (map snd (walls l))) rs [] [] = Inr res
         \<and> set (rays l') = set (fst res) - set (snd res))
     \<and> sorted (map (\<lambda>r. calculate_angle g (light_x l, light_y l) (ray_b r)) (rays l'))
     \<and> light_polygon l' = map ray_b (rays l')
     \<and> sorted (map (calculate_angle g (light_x l, light_y l)) (light_polygon l'))"
proof -
  from update_light_cases [OF assms] obtain rs res
    where c: "cast_rays g (walls l)
             (sort_key (\<lambda>e. calculate_angle g (light_x l, light_y l) (position e)) (endpoints l))
             (light_x l, light_y l) (power l) = Inr rs"
      and r: "resolve_rays (light_x l, light_y l)
             (sort_walls g (light_x l, light_y l) (map snd (walls l))) rs [] [] = Inr res"
      and fr: "rays l' = final_rays g (light_x l, light_y l) (fst res) (snd res)"
      and poly: "light_polygon l' = map ray_b (rays l')"
    by blast
  have s1: "sorted (map (\<lambda>r. calculate_angle g (light_x l, light_y l) (ray_b r)) (rays l'))"
    by (simp add: fr sorted_final_rays)
  then have s2: "sorted (map (calculate_angle g (light_x l, light_y l)) (light_polygon l'))"
    by (simp add: poly comp_def)
  have "set (rays l') = set (fst res) - set (snd res)" by (simp add: fr final_rays_set)
  with c r s1 s2 poly show ?thesis by blast
qed

theorem polygon_sorted_by_angle_witness:
  "\<exists>l1 l2. find_walls 100 100 0 0 (new_light 50 50 1500 []) = Inr l1
     \<and> update_light plane_geometry l1 = Inr l2
     \<and> light_polygon l2 = map ray_b (rays l2)
     \<and> sorted (map (calculate_angle plane_geometry (50, 50)) (light_polygon l2))"
proof -
  from no_obstacles_update [of "new_light 50 50 1500 []" 100 100 0 0 plane_geometry]
  obtain l1 l2 where fw: "find_walls 100 100 0 0 (new_light 50 50 1500 []) = Inr l1"
    and up: "update_light plane_geometry l1 = Inr l2"
    by (auto simp: new_light_def)
  from find_walls_parts [OF fw] have "light_x l1 = 50" "light_y l1 = 50"
    by (auto simp: new_light_def)
  with polygon_sorted_by_angle [OF up] fw up show ?thesis by auto
qed




text \<open>
  C4 is what the source intends and not what it does. The test before the append looks for
  the 2-tuple (origin, (0.0, 0.0)) in a list that only holds 4-tuples, so it never finds it,
  and the workaround ray is appended once for every endpoint that is not skipped (lemma
  cast_endpoint_count, for every geometry). In the default scene, a 100 by 100 screen without
  obstacles and the light at its centre with power 1500, the ray caster returns two rays
  (origin, (0, 0), None, None), and both are among the final rays of the update.
\<close>

theorem workaround_ray_twice:
  "map_sum id (\<lambda>rs. count_list rs (Ray4 (50, 50) (0, 0) None None))
      (cast_rays plane_geometry (walls_dict (border_walls 100 100 0))
         (sort_key (\<lambda>e. calculate_angle plane_geometry (50, 50) (position e))
            (find_endpoints 0 (border_walls 100 100 0)))
         (50, 50) 1500) = Inr 2
   \<and> map_sum id (\<lambda>l. count_list (rays l) (Ray4 (50, 50) (0, 0) None None))
      (light_then_update plane_geometry 100 100 0 0 (new_light 50 50 1500 [])) = Inr 2"
proof -
  let ?bw = "border_walls 100 100 0"
  let ?l = "new_light 50 50 1500 []"
  let ?l1 = "?l\<lparr>endpoints := find_endpoints 0 ?bw, walls := walls_dict ?bw\<rparr>"
  let ?w = "Ray4 (50, 50) (0, 0) None None"
  let ?ws = "sort_walls plane_geometry (50, 50) (map snd (walls ?l1))"
  from scene_cast obtain rs
    where c: "cast_rays plane_geometry (walls_dict ?bw)
         (sort_key (\<lambda>e. calculate_angle plane_geometry (50, 50) (position e))
            (find_endpoints 0 ?bw)) (50, 50) 1500 = Inr rs"
      and n: "count_list rs ?w = 2"
    by (auto simp: workaround_def)
  have fw: "find_walls 100 100 0 0 ?l = Inr ?l1"
    by (rule no_obstacles_light) simp
  obtain res where r: "resolve_rays (50, 50) ?ws rs [] [] = Inr res"
    using resolve_rays_returns by blast
  from resolve_rays_invariant [OF r resolved_empty]
  have inv: "resolved (50, 50) ?ws [] (fst res) (snd res)" by simp
  have sw: "set ?ws = set ?bw" by (simp only: sort_walls_def set_sort) (simp add: border_walls_dict)
  have "\<forall>w \<in> set ?ws. \<not> crosses ((50, 50), (0, 0)) (wall_line w)"
    unfolding sw using border_not_crossed [of 100 100 "(50, 50)" "(0, 0)" _ 0]
    by (simp add: inside_area_def)
  then have "colliding_wall ?ws ?w = None" by (simp add: colliding_wall_None collides_def)
  with inv have "?w \<notin> set (snd res)" by (simp add: resolved_def)
  from count_final_rays [OF this, of plane_geometry "(50, 50)" "fst res"]
    resolve_rays_count [OF r, of "(50, 50)" "(0, 0)" None None] n
  have k: "count_list (final_rays plane_geometry (50, 50) (fst res) (snd res)) ?w = 2" by simp
  have "update_light plane_geometry ?l1 =
      Inr (?l1\<lparr>endpoints := sort_key (\<lambda>e. calculate_angle plane_geometry (50, 50) (position e))
                              (find_endpoints 0 ?bw),
             rays := final_rays plane_geometry (50, 50) (fst res) (snd res),
             light_polygon := map ray_b (final_rays plane_geometry (50, 50) (fst res) (snd res))\<rparr>)"
    using c r by (simp add: update_light_def Let_def)
  with fw k have "map_sum id (\<lambda>l. count_list (rays l) ?w)
      (light_then_update plane_geometry 100 100 0 0 ?l) = Inr 2"
    by (simp add: light_then_update_def)
  with c n show ?thesis by simp
qed



text \<open>
  C6. When every obstacle has at least 2 points, find_walls succeeds and stores
  4 + (the sum of the obstacles' point counts) walls under pairwise distinct ids. The stored
  walls are, in order, the four borders followed by every collected obstacle edge: no edge is
  dropped or merged, coincident ones included.
\<close>

theorem find_walls_count:
  assumes "\<forall>ps \<in> set (obstacles l). 2 \<le> length ps"
  shows "\<exists>l' ws. find_walls SCREEN_H SCREEN_W wall_count endpoint_count l = Inr l'
           \<and> collect_walls (obstacles l) (borders SCREEN_H SCREEN_W) = Inr ws
           \<and> map (\<lambda>iw. wall_line (snd iw)) (walls l') = ws
           \<and> distinct (map fst (walls l'))
           \<and> length (walls l') = 4 + sum_list (map length (obstacles l))"
proof -
  from assms have ne: "\<forall>ps \<in> set (obstacles l). ps \<noteq> []" by auto
  from collect_walls_length [OF ne, of "borders SCREEN_H SCREEN_W"]
  obtain ws where ws: "collect_walls (obstacles l) (borders SCREEN_H SCREEN_W) = Inr ws"
    and len: "length ws = 4 + sum_list (map length (obstacles l))"
    by (auto simp: borders_def)
  let ?mk = "make_walls wall_count ws"
  have d: "walls_dict ?mk = map (\<lambda>w. (wall_id w, w)) ?mk"
    by (rule walls_dict_distinct) (rule make_walls_distinct)
  have fw: "find_walls SCREEN_H SCREEN_W wall_count endpoint_count l =
      Inr (l\<lparr>endpoints := find_endpoints endpoint_count ?mk, walls := walls_dict ?mk\<rparr>)"
    by (simp add: find_walls_def build_walls_def ws)
  have lines: "map (\<lambda>iw. wall_line (snd iw)) (walls_dict ?mk) = ws"
    using make_walls_lines [of wall_count ws] by (simp add: d comp_def)
  have ids: "distinct (map fst (walls_dict ?mk))"
    using make_walls_distinct [of wall_count ws] by (simp add: d comp_def)
  have n: "length (walls_dict ?mk) = 4 + sum_list (map length (obstacles l))"
    by (simp add: d make_walls_length len)
  from fw ws lines ids n show ?thesis by simp
qed

theorem find_walls_count_witness:
  "list_all (\<lambda>ps. 2 \<le> length ps)
     (obstacles (new_light 50 50 1500 [[(40, 40), (60, 40)], [(40, 40), (60, 40)]]))
   \<and> (\<exists>l'. find_walls 100 100 0 0
              (new_light 50 50 1500 [[(40, 40), (60, 40)], [(40, 40), (60, 40)]]) = Inr l'
         \<and> length (walls l') = 8)"
  using find_walls_count
    [of "new_light 50 50 1500 [[(40, 40), (60, 40)], [(40, 40), (60, 40)]]" 100 100 0 0]
  by (auto simp: new_light_def)

text \<open>
  C7. find_endpoints creates exactly one Endpoint for each distinct position among the wall
  ends, compared by equality of the coordinate pairs: the positions of the endpoints are
  pairwise distinct and are exactly the wall ends. Hence there are at most twice as many
  endpoints as walls, and exactly twice as many precisely when no two wall ends coincide.
\<close>

theorem find_endpoints_dedup:
  "distinct (map position (find_endpoints c ws))
   \<and> set (map position (find_endpoints c ws)) = set (wall_endings ws)
   \<and> length (find_endpoints c ws) \<le> 2 * length ws
   \<and> (length (find_endpoints c ws) = 2 * length ws) = distinct (wall_endings ws)"
proof -
  have le: "length (find_endpoints c ws) \<le> 2 * length ws"
    using card_length [of "wall_endings ws"]
    by (simp add: find_endpoints_length length_wall_endings)
  have eq: "(length (find_endpoints c ws) = 2 * length ws) = distinct (wall_endings ws)"
    using card_distinct [of "wall_endings ws"] distinct_card [of "wall_endings ws"]
    by (auto simp: find_endpoints_length length_wall_endings)
  from find_endpoints_positions [of c ws] le eq show ?thesis by simp
qed

theorem find_endpoints_dedup_witness:
  "map position (find_endpoints 0 [Wall 1 (0, 0) (1, 0), Wall 2 (1, 0) (1, 1)])
     = [(0, 0), (1, 0), (1, 1)]
   \<and> length (find_endpoints 0 [Wall 1 (0, 0) (1, 0), Wall 2 (1, 0) (1, 1)]) \<le> 2 * 2
   \<and> \<not> distinct (wall_endings [Wall 1 (0, 0) (1, 0), Wall 2 (1, 0) (1, 1)])"
  using find_endpoints_dedup [of 0 "[Wall 1 (0, 0) (1, 0), Wall 2 (1, 0) (1, 1)]"]
  by (simp add: find_endpoints_def wall_endings_def Wall_def new_id_def Endpoint_def
      tag_endpoint_def)

text \<open>
  C8, as stated, fails: an obstacle with a single point is accepted without any error and
  yields a wall whose two ends are equal.
\<close>

theorem degenerate_wall_built:
  "map_sum id (\<lambda>l. map snd (walls l)) (find_walls 100 100 0 0 (new_light 50 50 1500 [[(1, 1)]]))
     = Inr [Wall 1 (100, 0) (100, 100), Wall 2 (100, 100) (0, 100), Wall 3 (0, 100) (0, 0),
            Wall 4 (0, 0) (100, 0), Wall 5 (1, 1) (1, 1)]"
  by (simp add: find_walls_def build_walls_def new_light_def obstacle_walls_def borders_def
      new_id_def walls_dict_def Wall_def)

text \<open>
  C8, amended. find_walls validates nothing. An obstacle without points makes it raise
  IndexError (from points[-1]); when no obstacle is empty, an obstacle that consists of the
  single point p is accepted and contributes the degenerate wall from p to p.
\<close>

theorem find_walls_degenerate:
  "([] \<in> set (obstacles l) \<longrightarrow>
      find_walls SCREEN_H SCREEN_W wall_count endpoint_count l = Inl IndexError)
   \<and> ((\<forall>ps \<in> set (obstacles l). ps \<noteq> []) \<and> [p] \<in> set (obstacles l) \<longrightarrow>
      (\<exists>l'. find_walls SCREEN_H SCREEN_W wall_count endpoint_count l = Inr l'
          \<and> (\<exists>iw \<in> set (walls l'). wall_a (snd iw) = p \<and> wall_b (snd iw) = p)))"
proof (intro conjI impI)
  assume "[] \<in> set (obstacles l)"
  then show "find_walls SCREEN_H SCREEN_W wall_count endpoint_count l = Inl IndexError"
    by (simp add: find_walls_def build_walls_def collect_walls_empty_obstacle)
next
  assume a: "(\<forall>ps \<in> set (obstacles l). ps \<noteq> []) \<and> [p] \<in> set (obstacles l)"
  then obtain ws where ws: "collect_walls (obstacles l) (borders SCREEN_H SCREEN_W) = Inr ws"
    and pp: "(p, p) \<in> set ws"
    using collect_walls_single [of "obstacles l" p "borders SCREEN_H SCREEN_W"] by auto
  let ?mk = "make_walls wall_count ws"
  have d: "walls_dict ?mk = map (\<lambda>w. (wall_id w, w)) ?mk"
    by (rule walls_dict_distinct) (rule make_walls_distinct)
  from pp have "(p, p) \<in> set (map wall_line ?mk)" by (simp add: make_walls_lines)
  then obtain w where w: "w \<in> set ?mk" "wall_line w = (p, p)" by auto
  then have "(wall_id w, w) \<in> set (walls_dict ?mk)" by (simp add: d)
  with w(2) have "\<exists>iw \<in> set (walls_dict ?mk). wall_a (snd iw) = p \<and> wall_b (snd iw) = p"
    by (intro bexI [of _ "(wall_id w, w)"]) (auto simp: wall_line_def)
  then show "\<exists>l'. find_walls SCREEN_H SCREEN_W wall_count endpoint_count l = Inr l'
          \<and> (\<exists>iw \<in> set (walls l'). wall_a (snd iw) = p \<and> wall_b (snd iw) = p)"
    by (simp add: find_walls_def build_walls_def ws)
qed

theorem find_walls_degenerate_witness:
  "find_walls 100 100 0 0 (new_light 50 50 1500 [[(40, 40), (60, 40)], []]) = Inl IndexError
   \<and> (\<exists>l'. find_walls 100 100 0 0 (new_light 50 50 1500 [[(40, 40), (60, 40)], [(1, 1)]]) = Inr l'
          \<and> (\<exists>iw \<in> set (walls l'). wall_a (snd iw) = (1, 1) \<and> wall_b (snd iw) = (1, 1)))"
  using find_walls_degenerate
      [where l = "new_light 50 50 1500 [[(40, 40), (60, 40)], []]" and SCREEN_H = 100
         and SCREEN_W = 100 and wall_count = 0 and endpoint_count = 0]
    find_walls_degenerate
      [where l = "new_light 50 50 1500 [[(40, 40), (60, 40)], [(1, 1)]]" and SCREEN_H = 100
         and SCREEN_W = 100 and wall_count = 0 and endpoint_count = 0 and p = "(1, 1)"]
  by (simp add: new_light_def)






end
